theory Spec2Isabelle
  imports Main "HOL-Library.Word"
begin

text \<open>
  The AI-assisted editing of the tour dashboard: the cleaning and parsing of the model's answer
  (\<open>callOpenRouter\<close>), the slug of a title (\<open>slugify\<close>), the tree view of a Document
  (\<open>HumanReadableDisplay\<close>), the editor with its raw mode (\<open>AIAssistedEditor\<close>) and the checks
  before a save (\<open>TourEditor\<close>).
\<close>

lemma length_dropWhile_less_Suc: "length (dropWhile P xs) < Suc (length xs)"
  by (simp add: le_imp_less_Suc length_dropWhile_le)

lemma normalise_termination:
  fixes m :: int
  assumes "m \<noteq> 0" and "m mod 10 = 0"
  shows "\<bar>m div 10\<bar> < \<bar>m\<bar>"
proof -
  from assms(2) have "m = 10 * (m div 10)" by presburger
  with assms(1) show ?thesis by linarith
qed

lemma length_dropWhile_less_Suc2: "length (dropWhile P xs) < Suc (Suc (length xs))"
  using length_dropWhile_le [of P xs] by linarith

section \<open>Strings\<close>

text \<open>
  A JavaScript string is a sequence of UTF-16 code units. String literals of the source are
  written with \<open>js\<close>, which maps the characters of an ASCII literal to their code units.
\<close>

type_synonym cu = "16 word"
type_synonym jstring = "cu list"

definition js :: "string \<Rightarrow> jstring" where
  "js s = map of_char s"

text \<open>
  The characters matched by \<open>\s\<close> in a regular expression and removed by
  \<open>String.prototype.trim\<close>: WhiteSpace and LineTerminator of ECMAScript. \<open>\w\<close> is
  \<open>[A-Za-z0-9_]\<close>.
\<close>

definition is_space :: "cu \<Rightarrow> bool" where
  "is_space c = (c = 0x09 \<or> c = 0x0A \<or> c = 0x0B \<or> c = 0x0C \<or> c = 0x0D \<or> c = 0x20 \<or>
     c = 0xA0 \<or> c = 0x1680 \<or> (0x2000 \<le> c \<and> c \<le> 0x200A) \<or> c = 0x2028 \<or> c = 0x2029 \<or>
     c = 0x202F \<or> c = 0x205F \<or> c = 0x3000 \<or> c = 0xFEFF)"

definition is_upper :: "cu \<Rightarrow> bool" where
  "is_upper c = (0x41 \<le> c \<and> c \<le> 0x5A)"

definition is_lower :: "cu \<Rightarrow> bool" where
  "is_lower c = (0x61 \<le> c \<and> c \<le> 0x7A)"

definition is_digit :: "cu \<Rightarrow> bool" where
  "is_digit c = (0x30 \<le> c \<and> c \<le> 0x39)"

definition is_word :: "cu \<Rightarrow> bool" where
  "is_word c = (is_upper c \<or> is_lower c \<or> is_digit c \<or> c = 0x5F)"

definition hyphen :: cu where
  "hyphen = 0x2D"

section \<open>slugify (lines 56 to 63)\<close>

text \<open>
  \<open>String.prototype.toLowerCase\<close>, code unit by code unit. The mapping is the Unicode one on
  Basic Latin and Latin-1, on U+0130 (which becomes \<open>i\<close> followed by U+0307) and on the Kelvin
  and Angstrom signs. Capital A to Z, U+0130 and the Kelvin sign are the only characters whose
  lower case has a Basic Latin character in it. Every other cased letter is mapped by
  JavaScript to characters outside \<open>\w\<close>, which the second replacement of \<open>slugify\<close>
  deletes just as it deletes the letter itself, so it is left in place here.
\<close>

definition toLowerCase_unit :: "cu \<Rightarrow> jstring" where
  "toLowerCase_unit c =
     (if is_upper c then [c + 0x20]
      else if 0xC0 \<le> c \<and> c \<le> 0xDE \<and> c \<noteq> 0xD7 then [c + 0x20]
      else if c = 0x130 then [0x69, 0x307]
      else if c = 0x212A then [0x6B]
      else if c = 0x212B then [0xE5]
      else [c])"

definition toLowerCase :: "jstring \<Rightarrow> jstring" where
  "toLowerCase s = concat (map toLowerCase_unit s)"

text \<open>
  The five replacements of \<open>slugify\<close>, in the order of the source:
  \<open>/\s+/g\<close> to a hyphen, \<open>/[^\w\-]+/g\<close> deleted, \<open>/\-\-+/g\<close> to a hyphen,
  \<open>/^-+/\<close> deleted, \<open>/-+$/\<close> deleted.
\<close>

function replace_space_runs :: "jstring \<Rightarrow> jstring" where
  "replace_space_runs [] = []"
| "replace_space_runs (c # cs) =
     (if is_space c then hyphen # replace_space_runs (dropWhile is_space cs)
      else c # replace_space_runs cs)"
  by pat_completeness auto
termination
  by (relation "measure length") (simp_all add: length_dropWhile_less_Suc)

definition remove_non_slug :: "jstring \<Rightarrow> jstring" where
  "remove_non_slug s = filter (\<lambda>c. is_word c \<or> c = hyphen) s"

function collapse_hyphens :: "jstring \<Rightarrow> jstring" where
  "collapse_hyphens [] = []"
| "collapse_hyphens [c] = [c]"
| "collapse_hyphens (c # d # cs) =
     (if c = hyphen \<and> d = hyphen then hyphen # collapse_hyphens (dropWhile (\<lambda>x. x = hyphen) cs)
      else c # collapse_hyphens (d # cs))"
  by pat_completeness auto
termination
  by (relation "measure length") (simp_all add: length_dropWhile_less_Suc2)

definition strip_leading_hyphens :: "jstring \<Rightarrow> jstring" where
  "strip_leading_hyphens s = dropWhile (\<lambda>x. x = hyphen) s"

definition strip_trailing_hyphens :: "jstring \<Rightarrow> jstring" where
  "strip_trailing_hyphens s = rev (dropWhile (\<lambda>x. x = hyphen) (rev s))"

definition slugify :: "jstring \<Rightarrow> jstring" where
  "slugify text =
     strip_trailing_hyphens (strip_leading_hyphens (collapse_hyphens
       (remove_non_slug (replace_space_runs (toLowerCase text)))))"

text \<open>
  The shape of a slug: lowercase word characters and hyphens only, no two hyphens in a row,
  no hyphen first or last.
\<close>

definition is_slug_char :: "cu \<Rightarrow> bool" where
  "is_slug_char c = (is_lower c \<or> is_digit c \<or> c = 0x5F \<or> c = hyphen)"

fun single_hyphens :: "jstring \<Rightarrow> bool" where
  "single_hyphens (c # d # cs) = ((c \<noteq> hyphen \<or> d \<noteq> hyphen) \<and> single_hyphens (d # cs))"
| "single_hyphens _ = True"

definition slug_shape :: "jstring \<Rightarrow> bool" where
  "slug_shape s = (list_all is_slug_char s \<and> single_hyphens s \<and>
     (case s of [] \<Rightarrow> True | c # _ \<Rightarrow> c \<noteq> hyphen) \<and>
     (case rev s of [] \<Rightarrow> True | c # _ \<Rightarrow> c \<noteq> hyphen))"

section \<open>Documents and JSON\<close>

subsection \<open>Numbers\<close>

text \<open>
  A Number of JavaScript is an IEEE 754 double. A finite Number is written here as the decimal
  that \<open>Number::toString\<close> prints for it, which is the shortest decimal that rounds to it:
  \<open>Decimal m e\<close> is \<open>m * 10^e\<close>, with \<open>m\<close> not divisible by ten, and \<open>Decimal 0 0\<close> is zero.
  The sign of a zero is not kept: \<open>-0\<close> is printed as \<open>0\<close> by \<open>String\<close> and by
  \<open>JSON.stringify\<close>, and it is falsy like \<open>0\<close>. \<open>NaN\<close> does not occur: the numbers of this
  program are read by \<open>JSON.parse\<close> or are the length of an array or of a string.
\<close>

datatype number = Decimal int int | Infinity | MinusInfinity

text \<open>
  \<open>normalise m e\<close> is \<open>m * 10^e\<close> with the trailing zeros of \<open>m\<close> moved to the exponent.
\<close>

function normalise :: "int \<Rightarrow> int \<Rightarrow> int \<times> int" where
  "normalise m e =
     (if m = 0 then (0, 0)
      else if m mod 10 = 0 then normalise (m div 10) (e + 1)
      else (m, e))"
  by pat_completeness auto

termination
  by (relation "measure (\<lambda>(m, e). nat \<bar>m\<bar>)") (simp_all add: normalise_termination)

declare normalise.simps [simp del]

text \<open>
  The decimal digits of a natural number, as code units.
\<close>

definition digit_unit :: "int \<Rightarrow> cu" where
  "digit_unit d = of_int (48 + d)"

function digits :: "int \<Rightarrow> jstring" where
  "digits n = (if n < 10 then [digit_unit n] else digits (n div 10) @ [digit_unit (n mod 10)])"
  by pat_completeness auto

termination
  by (relation "measure nat") simp_all

declare digits.simps [simp del]

text \<open>
  A positive rational is a pair of a numerator and a denominator. \<open>round_to_double\<close> is the
  rounding of IEEE 754 to the nearest double, a tie going to the even significand:
  \<open>Some (m, e)\<close> is the double \<open>m * 2^e\<close>, where \<open>2^52 \<le> m < 2^53\<close>, or \<open>m < 2^52\<close> and
  \<open>e = - 1074\<close> for a subnormal number and for zero, and \<open>None\<close> is an overflow, where the
  Number is an infinity.
\<close>

function bit_length :: "int \<Rightarrow> int" where
  "bit_length n = (if n \<le> 0 then 0 else 1 + bit_length (n div 2))"
  by pat_completeness auto

termination
  by (relation "measure nat") simp_all

declare bit_length.simps [simp del]

type_synonym fraction = "int \<times> int"

definition times_pow :: "int \<Rightarrow> fraction \<Rightarrow> int \<Rightarrow> fraction" where
  "times_pow b q k =
     (case q of (n, d) \<Rightarrow> if 0 \<le> k then (n * b ^ nat k, d) else (n, d * b ^ nat (- k)))"

definition at_least_one :: "fraction \<Rightarrow> bool" where
  "at_least_one q = (case q of (n, d) \<Rightarrow> d \<le> n)"

definition floor_log2 :: "fraction \<Rightarrow> int" where
  "floor_log2 q =
     (case q of (n, d) \<Rightarrow>
        let l = bit_length n - bit_length d
        in if at_least_one (times_pow 2 q (- l)) then l else l - 1)"

definition floor_log10 :: "fraction \<Rightarrow> int" where
  "floor_log10 q =
     (case q of (n, d) \<Rightarrow>
        let l = int (length (digits n)) - int (length (digits d))
        in if at_least_one (times_pow 10 q (- l)) then l else l - 1)"

definition round_half_even :: "fraction \<Rightarrow> int" where
  "round_half_even q =
     (case q of (n, d) \<Rightarrow>
        let f = n div d; r = n mod d
        in if d < 2 * r \<or> (2 * r = d \<and> odd f) then f + 1 else f)"

definition round_to_double :: "fraction \<Rightarrow> (int \<times> int) option" where
  "round_to_double q =
     (let e = max (floor_log2 q - 52) (- 1074);
          m = round_half_even (times_pow 2 q (- e));
          e' = (if m = 2 ^ 53 then e + 1 else e);
          m' = (if m = 2 ^ 53 then 2 ^ 52 else m)
      in if 971 < e' then None else Some (m', e'))"

text \<open>
  The decimal of a double \<open>x\<close> as \<open>Number::toString\<close> chooses it: with the least number \<open>k\<close>
  of digits, an \<open>s\<close> of \<open>k\<close> digits such that \<open>s * 10^(n - k)\<close> rounds to \<open>x\<close>, and the one
  closest to \<open>x\<close> when there are two. The candidates of \<open>k\<close> digits are the two multiples of
  \<open>10^(n - k)\<close> around \<open>x\<close>. Seventeen digits are enough for every double; the last case of
  \<open>shortest\<close>, the full decimal expansion of \<open>x\<close>, only makes the function total.
\<close>

definition candidate :: "int \<times> int \<Rightarrow> int \<Rightarrow> int \<Rightarrow> int option" where
  "candidate x n k =
     (case times_pow 10 (times_pow 2 (fst x, 1) (snd x)) (k - n) of (a, b) \<Rightarrow>
        let lo = a div b; r = a mod b; hi = lo + 1;
            fits = (\<lambda>s. 0 < s \<and> round_to_double (times_pow 10 (s, 1) (n - k)) = Some x)
        in if fits lo \<and> fits hi
           then Some (if 2 * r < b then lo else if b < 2 * r then hi
                      else if even lo then lo else hi)
           else if fits lo then Some lo
           else if fits hi then Some hi
           else None)"

fun shortest_from :: "nat \<Rightarrow> int \<Rightarrow> int \<times> int \<Rightarrow> int \<Rightarrow> (int \<times> int) option" where
  "shortest_from 0 k x n = None"
| "shortest_from (Suc fuel) k x n =
     (case candidate x n k of
        Some s \<Rightarrow> Some (s, n - k)
      | None \<Rightarrow> shortest_from fuel (k + 1) x n)"

definition shortest :: "int \<times> int \<Rightarrow> int \<times> int" where
  "shortest x =
     (let n = floor_log10 (times_pow 2 (fst x, 1) (snd x)) + 1
      in case shortest_from 17 1 x n of
           Some (s, e) \<Rightarrow> normalise s e
         | None \<Rightarrow>
             if 0 \<le> snd x then normalise (fst x * 2 ^ nat (snd x)) 0
             else normalise (fst x * 5 ^ nat (- snd x)) (snd x))"

text \<open>
  \<open>ToNumber d\<close> is the Number that a decimal literal of value \<open>d\<close> denotes, the value rounded
  to a double. A value of at least \<open>10^309\<close> is beyond the largest double, and one below
  \<open>10^-325\<close> is less than half of the smallest one. \<open>Number_of i\<close> is the Number of an
  integer. \<open>Number_value\<close> holds of the finite Numbers: the decimals that are the decimal of
  their own double.
\<close>

definition ToNumber :: "int \<times> int \<Rightarrow> number" where
  "ToNumber d =
     (case d of (m, e) \<Rightarrow>
        let n = int (length (digits \<bar>m\<bar>)) + e
        in if m = 0 \<or> n \<le> - 325 then Decimal 0 0
           else if 310 \<le> n then (if m < 0 then MinusInfinity else Infinity)
           else (case round_to_double (times_pow 10 (\<bar>m\<bar>, 1) e) of
                   None \<Rightarrow> if m < 0 then MinusInfinity else Infinity
                 | Some x \<Rightarrow>
                     if fst x = 0 then Decimal 0 0
                     else (case shortest x of (s, e') \<Rightarrow> Decimal (if m < 0 then - s else s) e')))"

definition Number_of :: "int \<Rightarrow> number" where
  "Number_of i = ToNumber (normalise i 0)"


subsection \<open>Documents\<close>

text \<open>
  A Document is a JSON value. An object is the list of its own properties in the order of
  \<open>Object.keys\<close>. \<open>JNumber i\<close> is the Document that is the integer \<open>i\<close>.
\<close>

datatype json =
    JNull
  | JBool bool
  | JNum number
  | JString jstring
  | JArray "json list"
  | JObject "(jstring \<times> json) list"

definition JNumber :: "int \<Rightarrow> json" where
  "JNumber i = JNum (Number_of i)"

subsection \<open>JSON.stringify(value, null, 2)\<close>

text \<open>
  \<open>Number::toString\<close> of a positive Number \<open>s * 10^e\<close> of \<open>k\<close> digits, where \<open>n = k + e\<close>:
  the digits followed by zeros when \<open>k \<le> n \<le> 21\<close>; the digits with a decimal point after
  the first \<open>n\<close> of them when \<open>0 < n \<le> 21\<close>; \<open>0.\<close>, zeros and the digits when
  \<open>- 6 < n \<le> 0\<close>; otherwise the exponential notation: the first digit, the other digits
  after a decimal point if there are any, \<open>e\<close>, the sign of \<open>n - 1\<close> and its digits.
\<close>

definition unsigned_text :: "int \<Rightarrow> int \<Rightarrow> jstring" where
  "unsigned_text s e =
     (let ds = digits s; k = int (length ds); n = k + e
      in if k \<le> n \<and> n \<le> 21 then ds @ replicate (nat (n - k)) 0x30
         else if 0 < n \<and> n \<le> 21 then take (nat n) ds @ 0x2E # drop (nat n) ds
         else if - 6 < n \<and> n \<le> 0 then 0x30 # 0x2E # replicate (nat (- n)) 0x30 @ ds
         else (if k = 1 then ds else hd ds # 0x2E # tl ds) @
              0x65 # (if 0 < n - 1 then 0x2B else 0x2D) # digits \<bar>n - 1\<bar>)"

definition Number_toString :: "number \<Rightarrow> jstring" where
  "Number_toString x =
     (case x of
        Decimal m e \<Rightarrow>
          if m = 0 then [0x30]
          else if m < 0 then 0x2D # unsigned_text (- m) e
          else unsigned_text m e
      | Infinity \<Rightarrow> js ''Infinity''
      | MinusInfinity \<Rightarrow> js ''-Infinity'')"

text \<open>
  \<open>QuoteJSONString\<close>: the two-character escapes, \<open>\uXXXX\<close> with lowercase hexadecimal
  digits for the other control characters and for a surrogate that is not part of a pair,
  every other code unit as it is.
\<close>

definition hex_digit :: "nat \<Rightarrow> cu" where
  "hex_digit d = (if d < 10 then of_nat (48 + d) else of_nat (87 + d))"

definition unicode_escape :: "cu \<Rightarrow> jstring" where
  "unicode_escape c =
     [0x5C, 0x75, hex_digit (unat c div 4096), hex_digit (unat c div 256 mod 16),
      hex_digit (unat c div 16 mod 16), hex_digit (unat c mod 16)]"

definition is_lead_surrogate :: "cu \<Rightarrow> bool" where
  "is_lead_surrogate c = (0xD800 \<le> c \<and> c \<le> 0xDBFF)"

definition is_trail_surrogate :: "cu \<Rightarrow> bool" where
  "is_trail_surrogate c = (0xDC00 \<le> c \<and> c \<le> 0xDFFF)"

definition quote_unit :: "cu \<Rightarrow> jstring" where
  "quote_unit c =
     (if c = 0x08 then [0x5C, 0x62]
      else if c = 0x09 then [0x5C, 0x74]
      else if c = 0x0A then [0x5C, 0x6E]
      else if c = 0x0C then [0x5C, 0x66]
      else if c = 0x0D then [0x5C, 0x72]
      else if c = 0x22 then [0x5C, 0x22]
      else if c = 0x5C then [0x5C, 0x5C]
      else if c < 0x20 then unicode_escape c
      else [c])"

fun quote_units :: "jstring \<Rightarrow> jstring" where
  "quote_units [] = []"
| "quote_units [c] =
     (if is_lead_surrogate c \<or> is_trail_surrogate c then unicode_escape c else quote_unit c)"
| "quote_units (c # d # cs) =
     (if is_lead_surrogate c then
        (if is_trail_surrogate d then c # d # quote_units cs
         else unicode_escape c @ quote_units (d # cs))
      else if is_trail_surrogate c then unicode_escape c @ quote_units (d # cs)
      else quote_unit c @ quote_units (d # cs))"

definition QuoteJSONString :: "jstring \<Rightarrow> jstring" where
  "QuoteJSONString s = 0x22 # quote_units s @ [0x22]"

text \<open>
  \<open>SerializeJSONProperty\<close> with a gap of two spaces; \<open>ind\<close> is the width of the current
  indentation. An empty array is \<open>[]\<close> and an empty object \<open>{}\<close>; otherwise every element or
  member is on a line of its own, indented by two more spaces, and a member is its quoted key, a
  colon, a space and its value. An infinity is written \<open>null\<close>.
\<close>

fun join :: "jstring \<Rightarrow> jstring list \<Rightarrow> jstring" where
  "join sep [] = []"
| "join sep [x] = x"
| "join sep (x # y # ys) = x @ sep @ join sep (y # ys)"

definition spaces :: "nat \<Rightarrow> jstring" where
  "spaces n = replicate n 0x20"

fun SerializeJSONProperty :: "nat \<Rightarrow> json \<Rightarrow> jstring" where
  "SerializeJSONProperty ind JNull = js ''null''"
| "SerializeJSONProperty ind (JBool b) = (if b then js ''true'' else js ''false'')"
| "SerializeJSONProperty ind (JNum x) =
     (case x of Decimal m e \<Rightarrow> Number_toString x | _ \<Rightarrow> js ''null'')"
| "SerializeJSONProperty ind (JString s) = QuoteJSONString s"
| "SerializeJSONProperty ind (JArray xs) =
     (if xs = [] then js ''[]''
      else js ''['' @ [0x0A] @ spaces (ind + 2) @
           join ([0x2C, 0x0A] @ spaces (ind + 2)) (map (SerializeJSONProperty (ind + 2)) xs) @
           [0x0A] @ spaces ind @ js '']'')"
| "SerializeJSONProperty ind (JObject kvs) =
     (if kvs = [] then js ''{}''
      else js ''{'' @ [0x0A] @ spaces (ind + 2) @
           join ([0x2C, 0x0A] @ spaces (ind + 2))
             (map (\<lambda>(k, v). QuoteJSONString k @ js '': '' @ SerializeJSONProperty (ind + 2) v) kvs) @
           [0x0A] @ spaces ind @ js ''}'')"

definition JSON_stringify_2 :: "json \<Rightarrow> jstring" where
  "JSON_stringify_2 v = SerializeJSONProperty 0 v"

subsection \<open>JSON.parse\<close>

text \<open>
  JSON white space is space, tab, line feed and carriage return only.
\<close>

definition is_json_ws :: "cu \<Rightarrow> bool" where
  "is_json_ws c = (c = 0x20 \<or> c = 0x09 \<or> c = 0x0A \<or> c = 0x0D)"

definition skip_ws :: "jstring \<Rightarrow> jstring" where
  "skip_ws s = dropWhile is_json_ws s"

text \<open>
  The characters of a JSON string after its opening quote, up to the closing quote: returns the
  string and the rest of the input, or \<open>None\<close> when the string is malformed (a control
  character, an unknown escape, no closing quote).
\<close>

definition hex_value :: "cu \<Rightarrow> nat option" where
  "hex_value c =
     (if 0x30 \<le> c \<and> c \<le> 0x39 then Some (unat c - 48)
      else if 0x61 \<le> c \<and> c \<le> 0x66 then Some (unat c - 87)
      else if 0x41 \<le> c \<and> c \<le> 0x46 then Some (unat c - 55)
      else None)"

definition simple_escape :: "cu \<Rightarrow> cu option" where
  "simple_escape e =
     (if e = 0x22 then Some 0x22
      else if e = 0x5C then Some 0x5C
      else if e = 0x2F then Some 0x2F
      else if e = 0x62 then Some 0x08
      else if e = 0x66 then Some 0x0C
      else if e = 0x6E then Some 0x0A
      else if e = 0x72 then Some 0x0D
      else if e = 0x74 then Some 0x09
      else None)"

definition prepend_unit :: "cu \<Rightarrow> (jstring \<times> jstring) option \<Rightarrow> (jstring \<times> jstring) option" where
  "prepend_unit c r = (case r of None \<Rightarrow> None | Some (s, rest) \<Rightarrow> Some (c # s, rest))"

fun parse_string_units :: "jstring \<Rightarrow> (jstring \<times> jstring) option" where
  "parse_string_units [] = None"
| "parse_string_units (c # cs) =
     (if c = 0x22 then Some ([], cs)
      else if c = 0x5C then
        (case cs of
           [] \<Rightarrow> None
         | e # r \<Rightarrow>
             if e = 0x75 then
               (case r of
                  h1 # h2 # h3 # h4 # r' \<Rightarrow>
                    (case (hex_value h1, hex_value h2, hex_value h3, hex_value h4) of
                       (Some a, Some b, Some c', Some d) \<Rightarrow>
                         prepend_unit (of_nat (((a * 16 + b) * 16 + c') * 16 + d))
                           (parse_string_units r')
                     | _ \<Rightarrow> None)
                | _ \<Rightarrow> None)
             else
               (case simple_escape e of
                  None \<Rightarrow> None
                | Some x \<Rightarrow> prepend_unit x (parse_string_units r)))
      else if c < 0x20 then None
      else prepend_unit c (parse_string_units cs))"

text \<open>
  A JSON number: an optional minus sign; then \<open>0\<close> or a digit sequence that does not start
  with \<open>0\<close>; then optionally a decimal point and at least one digit; then optionally \<open>e\<close> or
  \<open>E\<close>, an optional sign and at least one digit. \<open>parse_unsigned\<close> returns the digits of the
  integer part and of the fraction as one integer, with the exponent that makes it the value
  of the literal, and \<open>parse_number\<close> rounds that value to a Number.
\<close>

definition decimal_value :: "jstring \<Rightarrow> int" where
  "decimal_value ds = foldl (\<lambda>a c. 10 * a + (uint c - 48)) 0 ds"

definition parse_fraction :: "jstring \<Rightarrow> (jstring \<times> jstring) option" where
  "parse_fraction s =
     (case s of
        [] \<Rightarrow> Some ([], s)
      | c # t \<Rightarrow>
          if c = 0x2E
          then (if takeWhile is_digit t = [] then None
                else Some (takeWhile is_digit t, dropWhile is_digit t))
          else Some ([], s))"

definition parse_exponent :: "jstring \<Rightarrow> (int \<times> jstring) option" where
  "parse_exponent s =
     (case s of
        [] \<Rightarrow> Some (0, s)
      | c # t \<Rightarrow>
          if c = 0x65 \<or> c = 0x45
          then (let neg = (case t of [] \<Rightarrow> False | x # _ \<Rightarrow> x = 0x2D);
                    signed = (case t of [] \<Rightarrow> False | x # _ \<Rightarrow> x = 0x2D \<or> x = 0x2B);
                    t1 = (if signed then tl t else t);
                    es = takeWhile is_digit t1
                in if es = [] then None
                   else Some (if neg then - decimal_value es else decimal_value es,
                              dropWhile is_digit t1))
          else Some (0, s))"

definition parse_unsigned :: "jstring \<Rightarrow> (int \<times> int \<times> jstring) option" where
  "parse_unsigned s =
     (let ds = takeWhile is_digit s
      in if ds = [] then None
         else if hd ds = 0x30 \<and> 1 < length ds then None
         else (case parse_fraction (dropWhile is_digit s) of
                 None \<Rightarrow> None
               | Some (fs, r) \<Rightarrow>
                   (case parse_exponent r of
                      None \<Rightarrow> None
                    | Some (x, r') \<Rightarrow>
                        Some (decimal_value (ds @ fs), x - int (length fs), r'))))"

definition parse_number :: "jstring \<Rightarrow> (number \<times> jstring) option" where
  "parse_number s =
     (let neg = (case s of [] \<Rightarrow> False | c # _ \<Rightarrow> c = 0x2D)
      in case parse_unsigned (if neg then tl s else s) of
           None \<Rightarrow> None
         | Some (m, e, r) \<Rightarrow>
             Some (ToNumber (normalise (if neg then - m else m) e), r))"

text \<open>
  The value of the digits of an array index.
\<close>

definition digits_value :: "jstring \<Rightarrow> nat" where
  "digits_value ds = foldl (\<lambda>a c. 10 * a + (unat c - 48)) 0 ds"

definition starts_with :: "jstring \<Rightarrow> jstring \<Rightarrow> bool" where
  "starts_with p s = (take (length p) s = p)"

text \<open>
  \<open>JSON.parse\<close> adds every member to the object with \<open>CreateDataProperty\<close>. A key that is
  already present keeps its place and takes the new value. Otherwise a key that is an array
  index (the canonical numeral of an integer below \<open>2^32 - 1\<close>) is placed among the array
  indices in ascending order, which come first, and any other key is appended: this is the
  order of \<open>Object.keys\<close>.
\<close>

definition array_index :: "jstring \<Rightarrow> nat option" where
  "array_index k =
     (if k \<noteq> [] \<and> list_all is_digit k \<and> (k = [0x30] \<or> hd k \<noteq> 0x30) \<and>
         length k \<le> 10 \<and> int (digits_value k) \<le> 4294967294
      then Some (digits_value k) else None)"

fun insert_index :: "nat \<Rightarrow> jstring \<Rightarrow> json \<Rightarrow> (jstring \<times> json) list \<Rightarrow> (jstring \<times> json) list" where
  "insert_index i k v [] = [(k, v)]"
| "insert_index i k v ((k', v') # m) =
     (case array_index k' of
        Some j \<Rightarrow> if j < i then (k', v') # insert_index i k v m else (k, v) # (k', v') # m
      | None \<Rightarrow> (k, v) # (k', v') # m)"

fun replace_value :: "jstring \<Rightarrow> json \<Rightarrow> (jstring \<times> json) list \<Rightarrow> (jstring \<times> json) list" where
  "replace_value k v [] = []"
| "replace_value k v ((k', v') # m) =
     (if k' = k then (k, v) # m else (k', v') # replace_value k v m)"

definition CreateDataProperty :: "(jstring \<times> json) list \<Rightarrow> jstring \<Rightarrow> json \<Rightarrow> (jstring \<times> json) list" where
  "CreateDataProperty m k v =
     (if k \<in> set (map fst m) then replace_value k v m
      else case array_index k of
             Some i \<Rightarrow> insert_index i k v m
           | None \<Rightarrow> m @ [(k, v)])"

text \<open>
  The recursive-descent parser. The first argument bounds the depth of the calls; \<open>JSON_parse\<close>
  starts with twice the length of the text plus two, which is never exhausted
  (\<open>fuel_never_exhausted\<close> below). The functions return the value and the rest of the
  input.
\<close>

definition next_is :: "cu \<Rightarrow> jstring \<Rightarrow> bool" where
  "next_is c s = (case skip_ws s of [] \<Rightarrow> False | d # _ \<Rightarrow> d = c)"

definition after_next :: "jstring \<Rightarrow> jstring" where
  "after_next s = tl (skip_ws s)"

definition parse_scalar :: "jstring \<Rightarrow> (json \<times> jstring) option" where
  "parse_scalar s =
     (case s of
        [] \<Rightarrow> None
      | c # r \<Rightarrow>
          if c = 0x22 then
            (case parse_string_units r of
               None \<Rightarrow> None
             | Some (str, r') \<Rightarrow> Some (JString str, r'))
          else if starts_with (js ''true'') s then Some (JBool True, drop 4 s)
          else if starts_with (js ''false'') s then Some (JBool False, drop 5 s)
          else if starts_with (js ''null'') s then Some (JNull, drop 4 s)
          else
            (case parse_number s of
               None \<Rightarrow> None
             | Some (x, r') \<Rightarrow> Some (JNum x, r')))"

definition parse_key :: "jstring \<Rightarrow> (jstring \<times> jstring) option" where
  "parse_key s =
     (if next_is 0x22 s then
        (case parse_string_units (after_next s) of
           None \<Rightarrow> None
         | Some (k, r) \<Rightarrow> if next_is 0x3A r then Some (k, after_next r) else None)
      else None)"

fun parse_value :: "nat \<Rightarrow> jstring \<Rightarrow> (json \<times> jstring) option"
  and parse_elements :: "nat \<Rightarrow> json list \<Rightarrow> jstring \<Rightarrow> (json \<times> jstring) option"
  and parse_members :: "nat \<Rightarrow> (jstring \<times> json) list \<Rightarrow> jstring \<Rightarrow> (json \<times> jstring) option"
where
  "parse_value 0 s = None"
| "parse_value (Suc n) s =
     (if next_is 0x7B s then
        (if next_is 0x7D (after_next s) then Some (JObject [], after_next (after_next s))
         else parse_members n [] (after_next s))
      else if next_is 0x5B s then
        (if next_is 0x5D (after_next s) then Some (JArray [], after_next (after_next s))
         else parse_elements n [] (after_next s))
      else parse_scalar (skip_ws s))"
| "parse_elements 0 acc s = None"
| "parse_elements (Suc n) acc s =
     (case parse_value n s of
        None \<Rightarrow> None
      | Some (v, r) \<Rightarrow>
          if next_is 0x2C r then parse_elements n (acc @ [v]) (after_next r)
          else if next_is 0x5D r then Some (JArray (acc @ [v]), after_next r)
          else None)"
| "parse_members 0 acc s = None"
| "parse_members (Suc n) acc s =
     (case parse_key s of
        None \<Rightarrow> None
      | Some (k, r) \<Rightarrow>
          (case parse_value n r of
             None \<Rightarrow> None
           | Some (v, r') \<Rightarrow>
               if next_is 0x2C r' then parse_members n (CreateDataProperty acc k v) (after_next r')
               else if next_is 0x7D r' then Some (JObject (CreateDataProperty acc k v), after_next r')
               else None))"

text \<open>
  Exceptions are values. The text of the SyntaxError that \<open>JSON.parse\<close> throws is chosen by
  the engine; a fixed non-empty text stands for it.
\<close>

datatype error_name = SyntaxError | TypeError | PlainError

datatype js_error = Thrown (name: error_name) (message: jstring)

definition json_syntax_message :: jstring where
  "json_syntax_message = js ''Unexpected token in JSON''"

definition JSON_parse :: "jstring \<Rightarrow> js_error + json" where
  "JSON_parse s =
     (case parse_value (2 * length s + 2) s of
        None \<Rightarrow> Inl (Thrown SyntaxError json_syntax_message)
      | Some (v, r) \<Rightarrow>
          if skip_ws r = [] then Inr v else Inl (Thrown SyntaxError json_syntax_message))"

subsection \<open>Well-formed Documents\<close>









section \<open>callOpenRouter (lines 21 to 53)\<close>

text \<open>
  The cleaning of the model's answer (line 46): three global replacements by the empty string,
  \<open>/```json/gi\<close>, then \<open>/```[a-z]*\n/gi\<close>, then \<open>/```/g\<close>, and \<open>trim\<close>.
  \<open>replace_all m rep\<close> replaces, from left to right, every match of \<open>m\<close> by \<open>rep\<close>; a matcher
  returns the rest of the text after its match. Without the \<open>u\<close> flag, the \<open>i\<close> flag makes no
  character outside Basic Latin match a Basic Latin letter.
\<close>

definition ascii_fold :: "cu \<Rightarrow> cu" where
  "ascii_fold c = (if is_upper c then c + 0x20 else c)"

definition is_ascii_letter :: "cu \<Rightarrow> bool" where
  "is_ascii_letter c = (is_upper c \<or> is_lower c)"

function replace_all :: "(jstring \<Rightarrow> jstring option) \<Rightarrow> jstring \<Rightarrow> jstring \<Rightarrow> jstring" where
  "replace_all m rep [] = []"
| "replace_all m rep (c # cs) =
     (case m (c # cs) of
        None \<Rightarrow> c # replace_all m rep cs
      | Some r \<Rightarrow>
          if length r < length (c # cs) then rep @ replace_all m rep r
          else c # replace_all m rep cs)"
  by pat_completeness auto
termination
  by (relation "measure (\<lambda>(m, rep, s). length s)") simp_all

definition fence :: jstring where
  "fence = [0x60, 0x60, 0x60]"

definition match_fence_json :: "jstring \<Rightarrow> jstring option" where
  "match_fence_json s =
     (if map ascii_fold (take 7 s) = fence @ js ''json'' then Some (drop 7 s) else None)"

definition match_fence_opener :: "jstring \<Rightarrow> jstring option" where
  "match_fence_opener s =
     (if take 3 s = fence then
        (case dropWhile is_ascii_letter (drop 3 s) of
           [] \<Rightarrow> None
         | d # r \<Rightarrow> if d = 0x0A then Some r else None)
      else None)"

definition match_fence :: "jstring \<Rightarrow> jstring option" where
  "match_fence s = (if take 3 s = fence then Some (drop 3 s) else None)"

definition trim :: "jstring \<Rightarrow> jstring" where
  "trim s = rev (dropWhile is_space (rev (dropWhile is_space s)))"

definition normalize :: "jstring \<Rightarrow> jstring" where
  "normalize content =
     trim (replace_all match_fence []
       (replace_all match_fence_opener []
         (replace_all match_fence_json [] content)))"

text \<open>
  What the endpoint answers to the request is an input of the model: \<open>fetch\<close> rejects, or
  resolves to a response with its \<open>ok\<close> flag, its status text and its body.
  \<open>js_get\<close> is the property access \<open>value[key]\<close> on a JSON value or on \<open>undefined\<close>
  (\<open>None\<close>): a TypeError on \<open>null\<close> and \<open>undefined\<close>, the own property otherwise;
  \<open>content_of data\<close> is \<open>data.choices[0].message.content\<close>.
  \<open>callOpenRouter_try\<close> is the body of the \<open>try\<close> block; the \<open>catch\<close> block logs whatever was
  thrown to the console and throws the same fixed error in every case.
\<close>

datatype fetch_outcome =
    NetworkFailure
  | Response (ok: bool) (statusText: jstring) (body: jstring)

fun js_get :: "json option \<Rightarrow> jstring \<Rightarrow> js_error + json option" where
  "js_get None k = Inl (Thrown TypeError (js ''Cannot read properties of undefined''))"
| "js_get (Some JNull) k = Inl (Thrown TypeError (js ''Cannot read properties of null''))"
| "js_get (Some (JObject kvs)) k = Inr (map_of kvs k)"
| "js_get (Some (JArray xs)) k =
     (if k = js ''length'' then Inr (Some (JNumber (int (length xs))))
      else case array_index k of
             None \<Rightarrow> Inr None
           | Some i \<Rightarrow> Inr (if i < length xs then Some (xs ! i) else None))"
| "js_get (Some (JString s)) k =
     (if k = js ''length'' then Inr (Some (JNumber (int (length s))))
      else case array_index k of
             None \<Rightarrow> Inr None
           | Some i \<Rightarrow> Inr (if i < length s then Some (JString [s ! i]) else None))"
| "js_get (Some (JBool b)) k = Inr None"
| "js_get (Some (JNum x)) k = Inr None"

definition bind_js :: "js_error + 'a \<Rightarrow> ('a \<Rightarrow> js_error + 'b) \<Rightarrow> js_error + 'b" where
  "bind_js r f = (case r of Inl e \<Rightarrow> Inl e | Inr x \<Rightarrow> f x)"

definition content_of :: "json \<Rightarrow> js_error + json option" where
  "content_of data =
     bind_js (js_get (Some data) (js ''choices'')) (\<lambda>choices.
     bind_js (js_get choices (js ''0'')) (\<lambda>choice.
     bind_js (js_get choice (js ''message'')) (\<lambda>msg.
       js_get msg (js ''content''))))"

definition callOpenRouter_try :: "fetch_outcome \<Rightarrow> js_error + json" where
  "callOpenRouter_try outcome =
     (case outcome of
        NetworkFailure \<Rightarrow> Inl (Thrown TypeError (js ''Failed to fetch''))
      | Response success status_text raw \<Rightarrow>
          if \<not> success then Inl (Thrown PlainError (js ''API Error: '' @ status_text))
          else
            bind_js (JSON_parse raw) (\<lambda>data.
            bind_js (content_of data) (\<lambda>content.
              case content of
                Some (JString text) \<Rightarrow> JSON_parse (normalize text)
              | _ \<Rightarrow> Inl (Thrown TypeError (js ''content.replace is not a function'')))))"

definition generation_error :: js_error where
  "generation_error = Thrown PlainError (js ''AI returned invalid JSON format or failed to generate.'')"

record call_result =
  console :: "js_error list"
  result :: "js_error + json"

definition callOpenRouter :: "fetch_outcome \<Rightarrow> call_result" where
  "callOpenRouter outcome =
     (case callOpenRouter_try outcome of
        Inl e \<Rightarrow> \<lparr>console = [e], result = Inl generation_error\<rparr>
      | Inr v \<Rightarrow> \<lparr>console = [], result = Inr v\<rparr>)"

text \<open>
  The body of a response in the format of the endpoint, with the given text as
  \<open>choices[0].message.content\<close>.
\<close>

definition chat_body :: "jstring \<Rightarrow> jstring" where
  "chat_body content =
     js ''{\"choices\":[{\"message\":{\"role\":\"assistant\",\"content\":'' @
     QuoteJSONString content @ js ''}}]}''"

section \<open>HumanReadableDisplay (lines 179 to 234)\<close>

text \<open>
  What is rendered, by the kind of element: the grey italic marker, the plain text of a scalar,
  the YES/NO badge, the bordered card around an object of a list, the list, the rows of an
  object (indented when the depth is positive) with their humanized keys, the panel around
  the whole tree, the "no data" placeholder of the editor, and nothing.
\<close>

datatype view =
    Marker jstring
  | Scalar jstring
  | Badge bool
  | Card view
  | ListView "view list"
  | Rows bool "(jstring \<times> view) list"
  | Panel view
  | NoData
  | Nothing

definition String_of :: "json \<Rightarrow> jstring" where
  "String_of node =
     (case node of
        JString s \<Rightarrow> s
      | JNum x \<Rightarrow> Number_toString x
      | JBool b \<Rightarrow> (if b then js ''true'' else js ''false'')
      | _ \<Rightarrow> [])"

definition humanize :: "jstring \<Rightarrow> jstring" where
  "humanize k = map (\<lambda>c. if c = 0x5F then 0x20 else c) k"

definition is_object_like :: "json \<Rightarrow> bool" where
  "is_object_like v = (case v of JArray _ \<Rightarrow> True | JObject _ \<Rightarrow> True | _ \<Rightarrow> False)"

fun renderNode :: "json \<Rightarrow> nat \<Rightarrow> view" where
  "renderNode JNull depth = Marker (js ''Not provided'')"
| "renderNode (JArray xs) depth =
     (if xs = [] then Marker (js ''Empty list'')
      else ListView (map (\<lambda>item. if is_object_like item then Card (renderNode item (depth + 1))
                                    else renderNode item (depth + 1)) xs))"
| "renderNode (JObject kvs) depth =
     (if kvs = [] then Marker (js ''Empty'')
      else Rows (0 < depth)
             (map (\<lambda>p. (humanize (fst p),
                         case snd p of JBool b \<Rightarrow> Badge b | _ \<Rightarrow> renderNode (snd p) (depth + 1))) kvs))"
| "renderNode (JBool b) depth = Scalar (String_of (JBool b))"
| "renderNode (JNum x) depth = Scalar (String_of (JNum x))"
| "renderNode (JString s) depth = Scalar (String_of (JString s))"

definition HumanReadableDisplay :: "json \<Rightarrow> view" where
  "HumanReadableDisplay data = (if data = JNull then Nothing else Panel (renderNode data 0))"

definition no_keys :: "json \<Rightarrow> bool" where
  "no_keys v = (v = JNull \<or> v = JArray [] \<or> v = JObject [])"

definition preview :: "json \<Rightarrow> view" where
  "preview v = (if no_keys v then NoData else HumanReadableDisplay v)"

section \<open>AIAssistedEditor (lines 237 to 375)\<close>

text \<open>
  \<open>or_else v d\<close> is \<open>v || d\<close>.
\<close>

fun truthy :: "json \<Rightarrow> bool" where
  "truthy JNull = False"
| "truthy (JBool b) = b"
| "truthy (JNum x) = (case x of Decimal m e \<Rightarrow> m \<noteq> 0 | _ \<Rightarrow> True)"
| "truthy (JString s) = (s \<noteq> [])"
| "truthy (JArray xs) = True"
| "truthy (JObject kvs) = True"

definition or_else :: "json \<Rightarrow> json \<Rightarrow> json" where
  "or_else v d = (if truthy v then v else d)"

text \<open>
  The state of one editor. \<open>document\<close> is \<open>formData[activeTab]\<close>, which the form owns and
  \<open>onChange\<close> replaces (line 674); the editor's \<open>value\<close> is
  \<open>formData[activeTab] || (activeTab === 'itinerary_data' ? [] : {})\<close> (line 673). \<open>toasts\<close> are
  the notifications emitted so far and \<open>onChange_calls\<close> the arguments of the calls of
  \<open>onChange\<close>.
\<close>

datatype editor_mode = Preview | Raw

datatype toast_type = Info | Success | Failure

record editor =
  document :: json
  itinerary_tab :: bool
  mode :: editor_mode
  rawText :: jstring
  error :: jstring
  prompt :: jstring
  isProcessing :: bool
  toasts :: "(jstring \<times> toast_type) list"
  onChange_calls :: "json list"

definition value_prop :: "editor \<Rightarrow> json" where
  "value_prop s = or_else (document s) (if itinerary_tab s then JArray [] else JObject [])"

text \<open>
  The effect of lines 248 to 253 runs after a render in which \<open>mode\<close> or \<open>value\<close> is not the
  same (\<open>Object.is\<close>) as before. A value built by \<open>JSON.parse\<close> or by the literal
  \<open>{}\<close> is a new object each time; a primitive is the same as an equal primitive.
\<close>

definition raw_effect :: "editor \<Rightarrow> editor" where
  "raw_effect s =
     (if mode s = Raw
      then s\<lparr>rawText := JSON_stringify_2 (or_else (value_prop s) (JObject [])), error := []\<rparr>
      else s)"

definition same_reference :: "json \<Rightarrow> json \<Rightarrow> bool" where
  "same_reference old new = (\<not> is_object_like new \<and> old = new)"

definition onChange :: "json \<Rightarrow> editor \<Rightarrow> editor" where
  "onChange v s =
     (let s' = s\<lparr>document := v, onChange_calls := onChange_calls s @ [v]\<rparr>
      in if same_reference (value_prop s) (value_prop s') then s' else raw_effect s')"

definition setMode :: "editor_mode \<Rightarrow> editor \<Rightarrow> editor" where
  "setMode m s = (if m = mode s then s else raw_effect (s\<lparr>mode := m\<rparr>))"

text \<open>
  The handlers: a keystroke in the raw text area (lines 360 to 363), its blur (lines 255 to
  263) and the generation (lines 270 to 297), which runs to its end with the endpoint's answer
  before anything else happens.
\<close>

definition textarea_onChange :: "jstring \<Rightarrow> editor \<Rightarrow> editor" where
  "textarea_onChange text s =
     (case JSON_parse text of
        Inr parsed \<Rightarrow> s\<lparr>rawText := text, error := []\<rparr>
      | Inl err \<Rightarrow> s\<lparr>rawText := text, error := message err\<rparr>)"

definition handleRawBlur :: "editor \<Rightarrow> editor" where
  "handleRawBlur s =
     (case JSON_parse (rawText s) of
        Inr parsed \<Rightarrow> (onChange parsed s)\<lparr>error := []\<rparr>
      | Inl err \<Rightarrow> s\<lparr>error := message err\<rparr>)"

definition toast :: "jstring \<Rightarrow> toast_type \<Rightarrow> editor \<Rightarrow> editor" where
  "toast msg ty s = s\<lparr>toasts := toasts s @ [(msg, ty)]\<rparr>"

definition handleAIGenerate :: "fetch_outcome \<Rightarrow> editor \<Rightarrow> editor" where
  "handleAIGenerate outcome s =
     (if trim (prompt s) = [] then s
      else
        (case result (callOpenRouter outcome) of
           Inr newData \<Rightarrow>
             onChange newData
               ((toast (js ''Update successful'') Success s)
                  \<lparr>prompt := [],
                   rawText := (if mode s = Raw then JSON_stringify_2 newData else rawText s),
                   isProcessing := False\<rparr>)
         | Inl err \<Rightarrow> (toast (message err) Failure s)\<lparr>isProcessing := False\<rparr>))"

definition tree_view :: "editor \<Rightarrow> view" where
  "tree_view s = preview (value_prop s)"

section \<open>TourEditor: checkSlug and handleSave (lines 403 to 438)\<close>

text \<open>
  The form with its title and slug (the other fields are the extension of the record), the
  result of the uniqueness query (an error, or the number of rows found), and the two
  operations.
\<close>

record 'a form_data =
  title :: jstring
  slug :: jstring
  other_fields :: 'a

record 'a tour_editor =
  formData :: "'a form_data"
  slugError :: jstring
  activeTab :: jstring
  isSaving :: bool
  notifications :: "(jstring \<times> toast_type) list"
  onSave_calls :: "'a form_data list"

datatype slug_query = QueryError jstring | QueryRows nat

definition checkSlug :: "jstring option \<Rightarrow> jstring \<Rightarrow> slug_query \<Rightarrow> 'a tour_editor \<Rightarrow> 'a tour_editor" where
  "checkSlug tour_slug debouncedSlug answer s =
     (if debouncedSlug = [] then s
      else if tour_slug = Some debouncedSlug then s\<lparr>slugError := []\<rparr>
      else case answer of
             QueryError msg \<Rightarrow> s\<lparr>notifications := notifications s @ [(msg, Failure)]\<rparr>
           | QueryRows n \<Rightarrow>
               if 0 < n then s\<lparr>slugError := js ''Slug is already in use''\<rparr>
               else s\<lparr>slugError := []\<rparr>)"

definition handleSave :: "'a tour_editor \<Rightarrow> 'a tour_editor" where
  "handleSave s =
     (if title (formData s) = [] \<or> slug (formData s) = [] then
        s\<lparr>notifications := notifications s @ [(js ''Title and slug are required'', Failure)],
          activeTab := js ''basic''\<rparr>
      else if slugError s \<noteq> [] then
        s\<lparr>notifications := notifications s @ [(js ''Please fix slug errors'', Failure)],
          activeTab := js ''basic''\<rparr>
      else s\<lparr>onSave_calls := onSave_calls s @ [formData s], isSaving := False\<rparr>)"

text \<open>
  An editor as it is mounted, in tree mode.
\<close>

definition initial_editor :: "json \<Rightarrow> editor" where
  "initial_editor doc =
     \<lparr>document = doc, itinerary_tab = False, mode = Preview, rawText = [], error = [],
      prompt = [], isProcessing = False, toasts = [], onChange_calls = []\<rparr>"

section \<open>Examples\<close>

text \<open>
  The states and texts of the examples: an empty form, the editor of the Document
  \<open>{"base_price": 100}\<close> with the prompt "change price to 150", the answers
  \<open>{"base_price": 150}\<close> and \<open>{"base_price": 99.5}\<close>, and a text between the fence
  markers, with and without the language tag.
\<close>

definition new_tour :: "unit tour_editor" where
  "new_tour =
     \<lparr>formData = \<lparr>title = [], slug = [], other_fields = ()\<rparr>, slugError = [],
      activeTab = js ''basic'', isSaving = False, notifications = [], onSave_calls = []\<rparr>"

definition price_editor :: editor where
  "price_editor =
     (initial_editor (JObject [(js ''base_price'', JNumber 100)]))\<lparr>prompt := js ''change price to 150''\<rparr>"

definition price_text :: jstring where
  "price_text = js ''{\"base_price\": 150}''"

definition rate_text :: jstring where
  "rate_text = js ''{\"base_price\": 99.5}''"

definition fenced_json :: "jstring \<Rightarrow> jstring" where
  "fenced_json t = fence @ js ''json'' @ [0x0A] @ t @ [0x0A] @ fence"

definition fenced_plain :: "jstring \<Rightarrow> jstring" where
  "fenced_plain t = fence @ [0x0A] @ t @ [0x0A] @ fence"


datatype position =
    Here
  | Element "json list" position "json list"
  | Member "(jstring \<times> json) list" jstring position "(jstring \<times> json) list"

fun place :: "position \<Rightarrow> json \<Rightarrow> json" where
  "place Here v = v"
| "place (Element before p after) v = JArray (before @ place p v # after)"
| "place (Member before k p after) v = JObject (before @ (k, place p v) # after)"

fun has_fence :: "jstring \<Rightarrow> bool" where
  "has_fence [] = False"
| "has_fence (c # cs) = (take 3 (c # cs) = fence \<or> has_fence cs)"

definition is_marker_value :: "json \<Rightarrow> bool" where
  "is_marker_value v = (v = JArray [] \<or> v = JNull \<or> v = JObject [])"

section \<open>Properties of slugify\<close>

lemma dropWhile_Cons_not: "dropWhile P xs = y # ys \<Longrightarrow> \<not> P y"
  by (metis hd_dropWhile list.sel(1) list.distinct(1))

lemma toLowerCase_unit_no_upper: "d \<in> set (toLowerCase_unit c) \<Longrightarrow> \<not> is_upper d"
  unfolding toLowerCase_unit_def is_upper_def
  by (auto split: if_splits; unat_arith)

lemma toLowerCase_no_upper: "d \<in> set (toLowerCase s) \<Longrightarrow> \<not> is_upper d"
  by (auto simp: toLowerCase_def dest: toLowerCase_unit_no_upper)

lemma hyphen_not_upper: "\<not> is_upper hyphen"
  by (simp add: hyphen_def is_upper_def)

lemma set_replace_space_runs: "set (replace_space_runs s) \<subseteq> insert hyphen (set s)"
proof (induction s rule: replace_space_runs.induct)
  case 1
  then show ?case by simp
next
  case (2 c cs)
  show ?case
  proof (cases "is_space c")
    case True
    with 2 have "set (replace_space_runs (dropWhile is_space cs)) \<subseteq> insert hyphen (set (dropWhile is_space cs))"
      by simp
    moreover have "set (dropWhile is_space cs) \<subseteq> set cs"
      by (auto dest: set_dropWhileD)
    ultimately show ?thesis using True by auto
  next
    case False
    with 2 show ?thesis by auto
  qed
qed

lemma set_collapse_hyphens: "set (collapse_hyphens s) \<subseteq> set s"
proof (induction s rule: collapse_hyphens.induct)
  case (3 c d cs)
  show ?case
  proof (cases "c = hyphen \<and> d = hyphen")
    case True
    with 3 have "set (collapse_hyphens (dropWhile (\<lambda>x. x = hyphen) cs)) \<subseteq> set (dropWhile (\<lambda>x. x = hyphen) cs)"
      by simp
    moreover have "set (dropWhile (\<lambda>x. x = hyphen) cs) \<subseteq> set cs"
      by (auto dest: set_dropWhileD)
    ultimately show ?thesis using True by auto
  next
    case False
    with 3 show ?thesis by auto
  qed
qed simp_all

lemma hd_collapse_hyphens:
  "collapse_hyphens s = x # xs \<Longrightarrow> \<exists>ys. s = x # ys"
  by (induction s rule: collapse_hyphens.induct) (auto split: if_splits)

lemma single_hyphens_Cons:
  "single_hyphens (c # s) = ((case s of [] \<Rightarrow> True | d # _ \<Rightarrow> c \<noteq> hyphen \<or> d \<noteq> hyphen) \<and> single_hyphens s)"
  by (cases s) auto

lemma single_hyphens_collapse: "single_hyphens (collapse_hyphens s)"
proof (induction s rule: collapse_hyphens.induct)
  case (3 c d cs)
  show ?case
  proof (cases "c = hyphen \<and> d = hyphen")
    case True
    let ?r = "dropWhile (\<lambda>x. x = hyphen) cs"
    from 3 True have ih: "single_hyphens (collapse_hyphens ?r)" by simp
    have "case collapse_hyphens ?r of [] \<Rightarrow> True | e # _ \<Rightarrow> e \<noteq> hyphen"
    proof (cases "collapse_hyphens ?r")
      case (Cons e es)
      then obtain ys where "?r = e # ys" using hd_collapse_hyphens by blast
      then have "e \<noteq> hyphen" by (auto dest: dropWhile_Cons_not)
      with Cons show ?thesis by simp
    qed simp
    with ih True show ?thesis by (simp add: single_hyphens_Cons split: list.splits)
  next
    case False
    with 3 have ih: "single_hyphens (collapse_hyphens (d # cs))" by simp
    show ?thesis
    proof (cases "collapse_hyphens (d # cs)")
      case Nil
      with False show ?thesis by auto
    next
      case (Cons e es)
      then have "e = d" using hd_collapse_hyphens by fastforce
      with Cons ih False show ?thesis by (auto simp: single_hyphens_Cons)
    qed
  qed
qed simp_all

lemma single_hyphens_append:
  "single_hyphens (xs @ ys) \<Longrightarrow> single_hyphens xs \<and> single_hyphens ys"
  by (induction xs rule: single_hyphens.induct) (auto simp: single_hyphens_Cons split: list.splits)

lemma single_hyphens_dropWhile: "single_hyphens s \<Longrightarrow> single_hyphens (dropWhile P s)"
  using single_hyphens_append [of "takeWhile P s" "dropWhile P s"] by simp

lemma single_hyphens_rev: "single_hyphens (rev s) = single_hyphens s"
proof (induction s rule: single_hyphens.induct)
  case (1 c d cs)
  have "single_hyphens (xs @ [a, b]) = (single_hyphens (xs @ [a]) \<and> (a \<noteq> hyphen \<or> b \<noteq> hyphen))" for xs a b
    by (induction xs rule: single_hyphens.induct) (auto simp: single_hyphens_Cons split: list.splits)
  with 1 show ?case by auto
qed simp_all

lemma list_all_slug_after_filter:
  assumes "\<And>d. d \<in> set s \<Longrightarrow> \<not> is_upper d"
  shows "list_all is_slug_char (remove_non_slug s)"
  using assms by (auto simp: list_all_iff remove_non_slug_def is_slug_char_def is_word_def)

lemma slugify_chars: "list_all is_slug_char (slugify text)"
proof -
  let ?a = "replace_space_runs (toLowerCase text)"
  have "\<not> is_upper d" if "d \<in> set ?a" for d
    using that set_replace_space_runs [of "toLowerCase text"] toLowerCase_no_upper hyphen_not_upper
    by auto
  then have "list_all is_slug_char (remove_non_slug ?a)"
    by (rule list_all_slug_after_filter)
  then have "list_all is_slug_char (collapse_hyphens (remove_non_slug ?a))"
    using set_collapse_hyphens [of "remove_non_slug ?a"] by (auto simp: list_all_iff)
  then show ?thesis
    unfolding slugify_def strip_trailing_hyphens_def strip_leading_hyphens_def list_all_iff
    by (auto dest!: set_dropWhileD)
qed

lemma slugify_single_hyphens: "single_hyphens (slugify text)"
  unfolding slugify_def strip_trailing_hyphens_def strip_leading_hyphens_def
  by (simp add: single_hyphens_rev single_hyphens_dropWhile single_hyphens_collapse)

lemma strip_trailing_last:
  "case rev (strip_trailing_hyphens s) of [] \<Rightarrow> True | c # _ \<Rightarrow> c \<noteq> hyphen"
  unfolding strip_trailing_hyphens_def
  by (auto split: list.splits dest: dropWhile_Cons_not)

lemma strip_trailing_first:
  assumes "case s of [] \<Rightarrow> True | c # _ \<Rightarrow> c \<noteq> hyphen"
  shows "case strip_trailing_hyphens s of [] \<Rightarrow> True | c # _ \<Rightarrow> c \<noteq> hyphen"
proof (cases s)
  case Nil
  then show ?thesis by (simp add: strip_trailing_hyphens_def)
next
  case (Cons c cs)
  with assms have c: "c \<noteq> hyphen" by simp
  have "strip_trailing_hyphens (c # cs) = c # strip_trailing_hyphens cs"
    using c by (simp add: strip_trailing_hyphens_def dropWhile_append)
  with Cons c show ?thesis by simp
qed

lemma strip_leading_first:
  "case strip_leading_hyphens s of [] \<Rightarrow> True | c # _ \<Rightarrow> c \<noteq> hyphen"
  unfolding strip_leading_hyphens_def
  by (auto split: list.splits dest: dropWhile_Cons_not)

lemma slugify_shape: "slug_shape (slugify text)"
  unfolding slug_shape_def
proof (intro conjI)
  show "list_all is_slug_char (slugify text)" by (rule slugify_chars)
  show "single_hyphens (slugify text)" by (rule slugify_single_hyphens)
  show "case slugify text of [] \<Rightarrow> True | c # _ \<Rightarrow> c \<noteq> hyphen"
    unfolding slugify_def by (rule strip_trailing_first) (rule strip_leading_first)
  show "case rev (slugify text) of [] \<Rightarrow> True | c # _ \<Rightarrow> c \<noteq> hyphen"
    unfolding slugify_def by (rule strip_trailing_last)
qed

lemma slug_char_lower: "is_slug_char c \<Longrightarrow> toLowerCase_unit c = [c]"
  unfolding is_slug_char_def toLowerCase_unit_def is_upper_def is_lower_def is_digit_def hyphen_def
  by (auto; unat_arith)

lemma slug_char_not_space: "is_slug_char c \<Longrightarrow> \<not> is_space c"
  unfolding is_slug_char_def is_space_def is_lower_def is_digit_def hyphen_def
  by (auto; unat_arith)

lemma slug_char_kept: "is_slug_char c \<Longrightarrow> is_word c \<or> c = hyphen"
  by (auto simp: is_slug_char_def is_word_def)

lemma toLowerCase_slug: "list_all is_slug_char s \<Longrightarrow> toLowerCase s = s"
  by (induction s) (auto simp: toLowerCase_def slug_char_lower)

lemma replace_space_runs_slug: "list_all is_slug_char s \<Longrightarrow> replace_space_runs s = s"
  by (induction s) (auto simp: slug_char_not_space)

lemma remove_non_slug_slug: "list_all is_slug_char s \<Longrightarrow> remove_non_slug s = s"
  by (induction s) (auto simp: remove_non_slug_def dest: slug_char_kept)

lemma collapse_hyphens_single: "single_hyphens s \<Longrightarrow> collapse_hyphens s = s"
  by (induction s rule: collapse_hyphens.induct) auto

lemma strip_leading_id:
  "(case s of [] \<Rightarrow> True | c # _ \<Rightarrow> c \<noteq> hyphen) \<Longrightarrow> strip_leading_hyphens s = s"
  by (cases s) (auto simp: strip_leading_hyphens_def)

lemma strip_trailing_id:
  "(case rev s of [] \<Rightarrow> True | c # _ \<Rightarrow> c \<noteq> hyphen) \<Longrightarrow> strip_trailing_hyphens s = s"
  by (cases "rev s") (auto simp: strip_trailing_hyphens_def)

lemma slugify_fixed: "slug_shape s \<Longrightarrow> slugify s = s"
  unfolding slug_shape_def slugify_def
  by (simp add: toLowerCase_slug replace_space_runs_slug remove_non_slug_slug
      collapse_hyphens_single strip_leading_id strip_trailing_id)

section \<open>Numbers and strings are read back\<close>














































section \<open>Documents are read back\<close>


















section \<open>The parser never runs out of fuel\<close>

text \<open>
  Every successful call of the parser consumes input, so a result found with any bound is found
  with the bound that \<open>JSON_parse\<close> starts with: what \<open>JSON_parse\<close> returns does not depend
  on the bound.
\<close>

lemma length_skip_ws: "length (skip_ws s) \<le> length s"
  by (simp add: skip_ws_def length_dropWhile_le)

lemma after_next_shorter: "next_is c s \<Longrightarrow> length (after_next s) < length s"
  using length_skip_ws [of s]
  by (cases "skip_ws s") (auto simp: next_is_def after_next_def)

lemma prepend_unit_Some:
  "prepend_unit c p = Some (x, r) \<Longrightarrow> \<exists>y. p = Some (y, r) \<and> x = c # y"
  by (auto simp: prepend_unit_def split: option.splits)

lemma parse_string_units_shorter:
  "parse_string_units s = Some (x, r) \<Longrightarrow> length r < length s"
proof (induction s arbitrary: x rule: parse_string_units.induct)
  case 1
  then show ?case by simp
next
  case (2 c cs)
  show ?case
  proof (cases "c = 0x22")
    case True
    with 2(4) show ?thesis by simp
  next
    case nq: False
    show ?thesis
    proof (cases "c = 0x5C")
      case bs: True
      show ?thesis
      proof (cases cs)
        case Nil
        with 2(4) nq bs show ?thesis by simp
      next
        case (Cons e r0)
        show ?thesis
        proof (cases "e = 0x75")
          case u: True
          from 2(4) nq bs Cons u obtain h1 h2 h3 h4 r' a b c' d where
            r0: "r0 = h1 # h2 # h3 # h4 # r'"
            and hv: "hex_value h1 = Some a" "hex_value h2 = Some b" "hex_value h3 = Some c'" "hex_value h4 = Some d"
            and pp: "prepend_unit (of_nat (((a * 16 + b) * 16 + c') * 16 + d)) (parse_string_units r') = Some (x, r)"
            by (auto split: list.splits option.splits)
          from pp obtain y where "parse_string_units r' = Some (y, r)"
            by (auto dest: prepend_unit_Some)
          then have "length r < length r'"
            using 2(1) [OF nq bs Cons u r0 refl refl refl refl] hv
            by simp
          then show ?thesis using Cons r0 by simp
        next
          case nu: False
          from 2(4) nq bs Cons nu obtain z where se: "simple_escape e = Some z"
            and pp: "prepend_unit z (parse_string_units r0) = Some (x, r)"
            by (auto split: option.splits)
          from pp obtain y where "parse_string_units r0 = Some (y, r)"
            by (auto dest: prepend_unit_Some)
          then have "length r < length r0"
            using 2(2) [OF nq bs Cons nu se] by simp
          then show ?thesis using Cons by simp
        qed
      qed
    next
      case nbs: False
      from 2(4) nq nbs have ctl: "\<not> c < 0x20"
        and pp: "prepend_unit c (parse_string_units cs) = Some (x, r)"
        by (auto split: if_splits)
      from pp obtain y where "parse_string_units cs = Some (y, r)"
        by (auto dest: prepend_unit_Some)
      then have "length r < length cs" using 2(3) [OF nq nbs ctl] by simp
      then show ?thesis by simp
    qed
  qed
qed

lemma length_parse_fraction:
  "parse_fraction s = Some (fs, r) \<Longrightarrow> length r \<le> length s"
  unfolding parse_fraction_def
  by (cases s) (auto split: if_splits intro: le_trans [OF length_dropWhile_le])

lemma length_parse_exponent:
  assumes "parse_exponent s = Some (x, r)"
  shows "length r \<le> length s"
proof (cases s)
  case Nil
  with assms show ?thesis by (simp add: parse_exponent_def)
next
  case (Cons c t)
  show ?thesis
  proof (cases "c = 0x65 \<or> c = 0x45")
    case False
    with assms Cons show ?thesis by (auto simp: parse_exponent_def)
  next
    case True
    define t1 where "t1 = (if (case t of [] \<Rightarrow> False | x # _ \<Rightarrow> x = 0x2D \<or> x = 0x2B) then tl t else t)"
    have "r = dropWhile is_digit t1"
      using assms Cons True unfolding parse_exponent_def Let_def t1_def
      by (auto split: if_splits)
    moreover have "length t1 \<le> length t" unfolding t1_def by simp
    moreover have "length (dropWhile is_digit t1) \<le> length t1" by (rule length_dropWhile_le)
    ultimately show ?thesis using Cons by simp
  qed
qed

lemma parse_unsigned_shorter:
  assumes "parse_unsigned s = Some (m, e, r)"
  shows "length r < length s"
proof -
  have ne: "takeWhile is_digit s \<noteq> []"
    using assms unfolding parse_unsigned_def Let_def by (auto split: if_splits)
  obtain fs r1 where f: "parse_fraction (dropWhile is_digit s) = Some (fs, r1)"
    using assms unfolding parse_unsigned_def Let_def by (auto split: if_splits option.splits)
  obtain x where x: "parse_exponent r1 = Some (x, r)"
    using assms f unfolding parse_unsigned_def Let_def by (auto split: if_splits option.splits)
  have "length (takeWhile is_digit s) + length (dropWhile is_digit s) = length s"
    by (metis length_append takeWhile_dropWhile_id)
  moreover have "0 < length (takeWhile is_digit s)" using ne by simp
  ultimately have "length (dropWhile is_digit s) < length s" by linarith
  with length_parse_fraction [OF f] length_parse_exponent [OF x] show ?thesis by linarith
qed

lemma parse_number_shorter:
  assumes "parse_number s = Some (i, r)"
  shows "length r < length s"
proof -
  define s1 where "s1 = (if (case s of [] \<Rightarrow> False | c # _ \<Rightarrow> c = 0x2D) then tl s else s)"
  obtain m e where "parse_unsigned s1 = Some (m, e, r)"
    using assms unfolding parse_number_def Let_def s1_def [symmetric]
    by (auto split: option.splits)
  then have "length r < length s1" by (rule parse_unsigned_shorter)
  moreover have "length s1 \<le> length s" unfolding s1_def by simp
  ultimately show ?thesis by linarith
qed

lemma starts_with_drop_shorter:
  assumes "starts_with p s" and "p \<noteq> []"
  shows "length (drop (length p) s) < length s"
proof -
  have "length (take (length p) s) = length p" using assms(1) by (simp only: starts_with_def)
  then have "length p \<le> length s" by simp
  moreover have "0 < length p" using assms(2) by simp
  ultimately show ?thesis unfolding length_drop by arith
qed

lemma parse_scalar_shorter:
  assumes "parse_scalar s = Some (v, r)"
  shows "length r < length s"
proof (cases s)
  case Nil
  with assms show ?thesis by (simp add: parse_scalar_def)
next
  case (Cons c cs)
  show ?thesis
  proof (cases "c = 0x22")
    case True
    with assms Cons obtain x where "parse_string_units cs = Some (x, r)"
      by (auto simp: parse_scalar_def split: option.splits)
    then have "length r < length cs" by (rule parse_string_units_shorter)
    with Cons show ?thesis by simp
  next
    case False
    have ps: "parse_scalar s =
        (if starts_with (js ''true'') s then Some (JBool True, drop 4 s)
         else if starts_with (js ''false'') s then Some (JBool False, drop 5 s)
         else if starts_with (js ''null'') s then Some (JNull, drop 4 s)
         else (case parse_number s of None \<Rightarrow> None | Some (x, r') \<Rightarrow> Some (JNum x, r')))"
      using False unfolding parse_scalar_def Cons by simp
    have l4: "length (js ''true'') = 4" "length (js ''null'') = 4" "length (js ''false'') = 5"
      "js ''true'' \<noteq> []" "js ''null'' \<noteq> []" "js ''false'' \<noteq> []"
      by (simp_all add: js_def)
    show ?thesis
    proof (cases "starts_with (js ''true'') s")
      case True
      then have "r = drop 4 s" using assms ps by simp
      then show ?thesis using starts_with_drop_shorter [OF True l4(4)] l4(1) by simp
    next
      case nt: False
      show ?thesis
      proof (cases "starts_with (js ''false'') s")
        case True
        then have "r = drop 5 s" using assms ps nt by simp
        then show ?thesis using starts_with_drop_shorter [OF True l4(6)] l4(3) by simp
      next
        case nf: False
        show ?thesis
        proof (cases "starts_with (js ''null'') s")
          case True
          then have "r = drop 4 s" using assms ps nt nf by simp
          then show ?thesis using starts_with_drop_shorter [OF True l4(5)] l4(2) by simp
        next
          case nn: False
          then obtain i where "parse_number s = Some (i, r)"
            using assms ps nt nf by (auto split: option.splits)
          then show ?thesis by (rule parse_number_shorter)
        qed
      qed
    qed
  qed
qed

lemma parse_key_shorter:
  assumes "parse_key s = Some (k, r)"
  shows "length r < length s"
proof -
  from assms obtain r1 where q: "next_is 0x22 s"
    and ps: "parse_string_units (after_next s) = Some (k, r1)"
    and c: "next_is 0x3A r1" and r: "r = after_next r1"
    by (auto simp: parse_key_def split: if_splits option.splits)
  have "length (after_next s) < length s" using q by (rule after_next_shorter)
  moreover have "length r1 < length (after_next s)" using ps by (rule parse_string_units_shorter)
  moreover have "length r < length r1" unfolding r using c by (rule after_next_shorter)
  ultimately show ?thesis by linarith
qed

lemma parse_shorter_all:
  "(\<forall>s v r. parse_value n s = Some (v, r) \<longrightarrow> length r < length s) \<and>
   (\<forall>acc s v r. parse_elements n acc s = Some (v, r) \<longrightarrow> length r < length s) \<and>
   (\<forall>acc s v r. parse_members n acc s = Some (v, r) \<longrightarrow> length r < length s)"
proof (induction n)
  case 0
  show ?case by simp
next
  case (Suc n)
  then have ihv: "\<And>s v r. parse_value n s = Some (v, r) \<Longrightarrow> length r < length s"
    and ihe: "\<And>acc s v r. parse_elements n acc s = Some (v, r) \<Longrightarrow> length r < length s"
    and ihm: "\<And>acc s v r. parse_members n acc s = Some (v, r) \<Longrightarrow> length r < length s"
    by blast+
  have v: "length r < length s" if p: "parse_value (Suc n) s = Some (v, r)" for s v r
  proof (cases "next_is 0x7B s")
    case True
    have a: "length (after_next s) < length s" using True by (rule after_next_shorter)
    show ?thesis
    proof (cases "next_is 0x7D (after_next s)")
      case e: True
      then have "r = after_next (after_next s)" using p True by simp
      then show ?thesis using after_next_shorter [OF e] a by simp
    next
      case False
      then have "parse_members n [] (after_next s) = Some (v, r)" using p True by simp
      then show ?thesis using ihm a by fastforce
    qed
  next
    case nb: False
    show ?thesis
    proof (cases "next_is 0x5B s")
      case True
      have a: "length (after_next s) < length s" using True by (rule after_next_shorter)
      show ?thesis
      proof (cases "next_is 0x5D (after_next s)")
        case e: True
        then have "r = after_next (after_next s)" using p nb True by simp
        then show ?thesis using after_next_shorter [OF e] a by simp
      next
        case False
        then have "parse_elements n [] (after_next s) = Some (v, r)" using p nb True by simp
        then show ?thesis using ihe a by fastforce
      qed
    next
      case False
      then have "parse_scalar (skip_ws s) = Some (v, r)" using p nb by simp
      then have "length r < length (skip_ws s)" by (rule parse_scalar_shorter)
      then show ?thesis using length_skip_ws [of s] by linarith
    qed
  qed
  have e: "length r < length s" if p: "parse_elements (Suc n) acc s = Some (v, r)" for acc s v r
  proof -
    from p obtain x y where pv: "parse_value n s = Some (x, y)"
      by (auto split: option.splits)
    have y: "length y < length s" using pv by (rule ihv)
    show ?thesis
    proof (cases "next_is 0x2C y")
      case True
      then have "parse_elements n (acc @ [x]) (after_next y) = Some (v, r)" using p pv by simp
      then have "length r < length (after_next y)" by (rule ihe)
      then show ?thesis using after_next_shorter [OF True] y by linarith
    next
      case False
      then have c: "next_is 0x5D y" and "r = after_next y"
        using p pv by (auto split: if_splits)
      then show ?thesis using after_next_shorter [OF c] y by simp
    qed
  qed
  have m: "length r < length s" if p: "parse_members (Suc n) acc s = Some (v, r)" for acc s v r
  proof -
    from p obtain k r1 where pk: "parse_key s = Some (k, r1)"
      by (auto split: option.splits)
    from p pk obtain x y where pv: "parse_value n r1 = Some (x, y)"
      by (auto split: option.splits)
    have y: "length y < length s"
      using ihv [OF pv] parse_key_shorter [OF pk] by linarith
    show ?thesis
    proof (cases "next_is 0x2C y")
      case True
      then have "parse_members n (CreateDataProperty acc k x) (after_next y) = Some (v, r)"
        using p pk pv by simp
      then have "length r < length (after_next y)" by (rule ihm)
      then show ?thesis using after_next_shorter [OF True] y by linarith
    next
      case False
      then have c: "next_is 0x7D y" and "r = after_next y"
        using p pk pv by (auto split: if_splits)
      then show ?thesis using after_next_shorter [OF c] y by simp
    qed
  qed
  show ?case using v e m by blast
qed

lemma parse_value_shorter: "parse_value n s = Some (v, r) \<Longrightarrow> length r < length s"
  using parse_shorter_all by blast

lemma fuel_enough_all:
  "(\<forall>s x m. parse_value n s = Some x \<longrightarrow> 2 * length s + 1 \<le> m \<longrightarrow> parse_value m s = Some x) \<and>
   (\<forall>acc s x m. parse_elements n acc s = Some x \<longrightarrow> 2 * length s + 2 \<le> m \<longrightarrow>
      parse_elements m acc s = Some x) \<and>
   (\<forall>acc s x m. parse_members n acc s = Some x \<longrightarrow> 2 * length s + 2 \<le> m \<longrightarrow>
      parse_members m acc s = Some x)"
proof (induction n)
  case 0
  show ?case by simp
next
  case (Suc n)
  then have ihv: "\<And>s x m. parse_value n s = Some x \<Longrightarrow> 2 * length s + 1 \<le> m \<Longrightarrow> parse_value m s = Some x"
    and ihe: "\<And>acc s x m. parse_elements n acc s = Some x \<Longrightarrow> 2 * length s + 2 \<le> m \<Longrightarrow>
      parse_elements m acc s = Some x"
    and ihm: "\<And>acc s x m. parse_members n acc s = Some x \<Longrightarrow> 2 * length s + 2 \<le> m \<Longrightarrow>
      parse_members m acc s = Some x"
    by blast+
  have v: "parse_value m s = Some x"
    if p: "parse_value (Suc n) s = Some x" and le: "2 * length s + 1 \<le> m" for s x m
  proof -
    obtain m' where m: "m = Suc m'" and le': "2 * length s \<le> m'" using le by (cases m) auto
    show ?thesis
    proof (cases "next_is 0x7B s")
      case True
      have a: "length (after_next s) < length s" using True by (rule after_next_shorter)
      show ?thesis
      proof (cases "next_is 0x7D (after_next s)")
        case e: True
        then show ?thesis using p True m by simp
      next
        case False
        then have "parse_members n [] (after_next s) = Some x" using p True by simp
        moreover have "2 * length (after_next s) + 2 \<le> m'" using a le' by linarith
        ultimately have "parse_members m' [] (after_next s) = Some x" by (rule ihm)
        then show ?thesis using True False m by simp
      qed
    next
      case nb: False
      show ?thesis
      proof (cases "next_is 0x5B s")
        case True
        have a: "length (after_next s) < length s" using True by (rule after_next_shorter)
        show ?thesis
        proof (cases "next_is 0x5D (after_next s)")
          case e: True
          then show ?thesis using p nb True m by simp
        next
          case False
          then have "parse_elements n [] (after_next s) = Some x" using p nb True by simp
          moreover have "2 * length (after_next s) + 2 \<le> m'" using a le' by linarith
          ultimately have "parse_elements m' [] (after_next s) = Some x" by (rule ihe)
          then show ?thesis using nb True False m by simp
        qed
      next
        case False
        then show ?thesis using p nb m by simp
      qed
    qed
  qed
  have e: "parse_elements m acc s = Some x"
    if p: "parse_elements (Suc n) acc s = Some x" and le: "2 * length s + 2 \<le> m" for acc s x m
  proof -
    obtain m' where m: "m = Suc m'" and le': "2 * length s + 1 \<le> m'" using le by (cases m) auto
    from p obtain a y where pv: "parse_value n s = Some (a, y)"
      by (auto split: option.splits)
    have y: "length y < length s" using pv by (rule parse_value_shorter)
    have pv': "parse_value m' s = Some (a, y)" using pv le' by (rule ihv)
    show ?thesis
    proof (cases "next_is 0x2C y")
      case True
      then have "parse_elements n (acc @ [a]) (after_next y) = Some x" using p pv by simp
      moreover have "2 * length (after_next y) + 2 \<le> m'"
        using after_next_shorter [OF True] y le' by linarith
      ultimately have "parse_elements m' (acc @ [a]) (after_next y) = Some x" by (rule ihe)
      then show ?thesis using pv' True m by simp
    next
      case False
      then show ?thesis using p pv pv' m by simp
    qed
  qed
  have mm: "parse_members m acc s = Some x"
    if p: "parse_members (Suc n) acc s = Some x" and le: "2 * length s + 2 \<le> m" for acc s x m
  proof -
    obtain m' where m: "m = Suc m'" and le': "2 * length s + 1 \<le> m'" using le by (cases m) auto
    from p obtain k r1 where pk: "parse_key s = Some (k, r1)"
      by (auto split: option.splits)
    from p pk obtain a y where pv: "parse_value n r1 = Some (a, y)"
      by (auto split: option.splits)
    have r1: "length r1 < length s" using pk by (rule parse_key_shorter)
    have y: "length y < length r1" using pv by (rule parse_value_shorter)
    have "2 * length r1 + 1 \<le> m'" using r1 le' by linarith
    with pv have pv': "parse_value m' r1 = Some (a, y)" by (rule ihv)
    show ?thesis
    proof (cases "next_is 0x2C y")
      case True
      then have "parse_members n (CreateDataProperty acc k a) (after_next y) = Some x"
        using p pk pv by simp
      moreover have "2 * length (after_next y) + 2 \<le> m'"
        using after_next_shorter [OF True] y r1 le' by linarith
      ultimately have "parse_members m' (CreateDataProperty acc k a) (after_next y) = Some x"
        by (rule ihm)
      then show ?thesis using pk pv' True m by simp
    next
      case False
      then show ?thesis using p pk pv pv' m by simp
    qed
  qed
  show ?case using v e mm by blast
qed

lemma fuel_never_exhausted:
  assumes "parse_value n s = Some x"
  shows "parse_value (2 * length s + 2) s = Some x"
  using fuel_enough_all [of n] assms by (meson le_add1 add_le_mono order_refl one_le_numeral)

lemma JSON_parse_fuel_free:
  "JSON_parse s = Inr v \<longleftrightarrow> (\<exists>n r. parse_value n s = Some (v, r) \<and> skip_ws r = [])"
proof
  assume "JSON_parse s = Inr v"
  then obtain r where "parse_value (2 * length s + 2) s = Some (v, r)" and "skip_ws r = []"
    unfolding JSON_parse_def
    by (cases "parse_value (2 * length s + 2) s")
       (auto simp del: parse_value.simps split: if_splits)
  then show "\<exists>n r. parse_value n s = Some (v, r) \<and> skip_ws r = []" by blast
next
  assume "\<exists>n r. parse_value n s = Some (v, r) \<and> skip_ws r = []"
  then obtain n r where p: "parse_value n s = Some (v, r)" and r: "skip_ws r = []" by blast
  from p have "parse_value (2 * length s + 2) s = Some (v, r)" by (rule fuel_never_exhausted)
  with r show "JSON_parse s = Inr v" by (simp add: JSON_parse_def del: parse_value.simps)
qed


section \<open>The claims\<close>

text \<open>
  Claim C10: slugify is idempotent, and its output consists of lowercase word characters
  and single interior hyphens only, with no leading or trailing hyphen.
\<close>

theorem slugify_idempotent:
  "slugify (slugify s) = slugify s \<and> slug_shape (slugify s)"
  by (simp add: slugify_fixed slugify_shape)

theorem slugify_idempotent_witness:
  "slugify (slugify (js ''  Hello,   World -- 2024! '')) = js ''hello-world-2024'' \<and>
   slug_shape (js ''hello-world-2024'')"
proof -
  have e: "slugify (js ''  Hello,   World -- 2024! '') = js ''hello-world-2024''"
    by code_simp
  show ?thesis
    using slugify_idempotent [of "js ''  Hello,   World -- 2024! ''"] by (simp only: e)
qed

subsection \<open>Saving a tour\<close>

lemma checkSlug_taken:
  "debounced \<noteq> [] \<Longrightarrow> tour_slug \<noteq> Some debounced \<Longrightarrow> 0 < n \<Longrightarrow>
   slugError (checkSlug tour_slug debounced (QueryRows n) s) = js ''Slug is already in use''"
  by (simp add: checkSlug_def)

text \<open>
  Claim C9: when the title is empty, the slug is empty, or the slug is known to be in use,
  handleSave does not call onSave; it emits one error notification and shows the basic tab.
\<close>

theorem handleSave_blocked:
  assumes "title (formData s) = [] \<or> slug (formData s) = [] \<or> slugError s \<noteq> []"
  shows "onSave_calls (handleSave s) = onSave_calls s \<and>
         notifications (handleSave s) = notifications s @
           [(if title (formData s) = [] \<or> slug (formData s) = []
             then js ''Title and slug are required'' else js ''Please fix slug errors'', Failure)] \<and>
         activeTab (handleSave s) = js ''basic''"
  using assms by (auto simp: handleSave_def)

theorem handleSave_blocked_witness:
  "onSave_calls (handleSave (checkSlug None (js ''nile-cruise'') (QueryRows 1)
       (new_tour\<lparr>formData := \<lparr>title = js ''Nile Cruise'', slug = js ''nile-cruise'', other_fields = ()\<rparr>\<rparr>))) = [] \<and>
   notifications (handleSave (checkSlug None (js ''nile-cruise'') (QueryRows 1)
       (new_tour\<lparr>formData := \<lparr>title = js ''Nile Cruise'', slug = js ''nile-cruise'', other_fields = ()\<rparr>\<rparr>)))
     = [(js ''Please fix slug errors'', Failure)] \<and>
   onSave_calls (handleSave new_tour) = [] \<and>
   notifications (handleSave new_tour) = [(js ''Title and slug are required'', Failure)]"
proof -
  let ?s = "checkSlug None (js ''nile-cruise'') (QueryRows 1)
       (new_tour\<lparr>formData := \<lparr>title = js ''Nile Cruise'', slug = js ''nile-cruise'', other_fields = ()\<rparr>\<rparr>)"
  have a: "slugError ?s \<noteq> []" by (simp add: checkSlug_def js_def)
  have b: "title (formData ?s) \<noteq> []" "slug (formData ?s) \<noteq> []" "onSave_calls ?s = []" "notifications ?s = []"
    by (simp_all add: checkSlug_def new_tour_def js_def)
  have c: "title (formData new_tour) = []" "onSave_calls new_tour = []" "notifications new_tour = []"
    by (simp_all add: new_tour_def)
  show ?thesis
    using handleSave_blocked [of ?s] handleSave_blocked [of new_tour] a b c by simp
qed

subsection \<open>Raw mode\<close>

lemma parse_price_text: "JSON_parse price_text = Inr (JObject [(js ''base_price'', JNumber 150)])"
  by code_simp

lemma parse_broken: "JSON_parse (js ''{broken'') = Inl (Thrown SyntaxError json_syntax_message)"
  by code_simp

lemma parse_rate_text:
  "JSON_parse rate_text = Inr (JObject [(js ''base_price'', JNum (Decimal 995 (- 1)))])"
  by code_simp

lemma parse_fraction_text: "JSON_parse (js ''1.5'') = Inr (JNum (Decimal 15 (- 1)))"
  by code_simp

lemma parse_exponent_text: "JSON_parse (js ''1e3'') = Inr (JNumber 1000)"
  by code_simp

text \<open>
  Claim C5: a keystroke in raw mode sets the raw text and sets or clears the inline error, and
  never calls onChange; a blur replaces the Document by the parsed value when the raw text
  parses, and otherwise shows the parser's message and leaves the Document as it is. The raw
  texts \<open>1.5\<close>, \<open>1e3\<close> and \<open>{"base_price": 99.5}\<close> parse, and a blur commits them.
\<close>

theorem raw_mode_commit:
  "onChange_calls (textarea_onChange text s) = onChange_calls s \<and>
   document (textarea_onChange text s) = document s \<and>
   rawText (textarea_onChange text s) = text \<and>
   error (textarea_onChange text s) = (case JSON_parse text of Inr v \<Rightarrow> [] | Inl e \<Rightarrow> message e) \<and>
   (case JSON_parse (rawText s) of
      Inr v \<Rightarrow>
        document (handleRawBlur s) = v \<and> onChange_calls (handleRawBlur s) = onChange_calls s @ [v] \<and>
        error (handleRawBlur s) = []
    | Inl e \<Rightarrow>
        handleRawBlur s = s\<lparr>error := message e\<rparr> \<and> document (handleRawBlur s) = document s \<and>
        onChange_calls (handleRawBlur s) = onChange_calls s)"
  by (auto simp: textarea_onChange_def handleRawBlur_def onChange_def raw_effect_def Let_def
      split: sum.splits)

theorem raw_mode_commit_witness:
  "document (textarea_onChange price_text (setMode Raw price_editor)) = JObject [(js ''base_price'', JNumber 100)] \<and>
   error (textarea_onChange price_text (setMode Raw price_editor)) = [] \<and>
   document (handleRawBlur (textarea_onChange price_text (setMode Raw price_editor)))
     = JObject [(js ''base_price'', JNumber 150)] \<and>
   document (handleRawBlur (textarea_onChange (js ''{broken'') (setMode Raw price_editor)))
     = JObject [(js ''base_price'', JNumber 100)] \<and>
   error (handleRawBlur (textarea_onChange (js ''{broken'') (setMode Raw price_editor))) = json_syntax_message \<and>
   error (textarea_onChange (js ''1.5'') (setMode Raw price_editor)) = [] \<and>
   document (handleRawBlur (textarea_onChange (js ''1.5'') (setMode Raw price_editor)))
     = JNum (Decimal 15 (- 1)) \<and>
   error (textarea_onChange (js ''1e3'') (setMode Raw price_editor)) = [] \<and>
   document (handleRawBlur (textarea_onChange (js ''1e3'') (setMode Raw price_editor))) = JNumber 1000 \<and>
   error (textarea_onChange rate_text (setMode Raw price_editor)) = [] \<and>
   document (handleRawBlur (textarea_onChange rate_text (setMode Raw price_editor)))
     = JObject [(js ''base_price'', JNum (Decimal 995 (- 1)))]"
proof -
  let ?s = "setMode Raw price_editor"
  have d: "document ?s = JObject [(js ''base_price'', JNumber 100)]"
    by (simp add: setMode_def raw_effect_def price_editor_def initial_editor_def)
  have t: "rawText (textarea_onChange content ?s) = content" for content
    using raw_mode_commit [of content ?s] by simp
  have d1: "document (textarea_onChange (js ''{broken'') ?s) = document ?s"
    using raw_mode_commit [of "js ''{broken''" ?s] by simp
  have k: "document (textarea_onChange content ?s) = JObject [(js ''base_price'', JNumber 100)] \<and>
      error (textarea_onChange content ?s) = [] \<and>
      document (handleRawBlur (textarea_onChange content ?s)) = v"
    if "JSON_parse content = Inr v" for content v
    using raw_mode_commit [of content ?s]
      raw_mode_commit [of "rawText (textarea_onChange content ?s)" "textarea_onChange content ?s"]
    by (simp add: t d that)
  have b: "document (handleRawBlur (textarea_onChange (js ''{broken'') ?s)) = JObject [(js ''base_price'', JNumber 100)] \<and>
      error (handleRawBlur (textarea_onChange (js ''{broken'') ?s)) = json_syntax_message"
    using raw_mode_commit [of "rawText (textarea_onChange (js ''{broken'') ?s)" "textarea_onChange (js ''{broken'') ?s"]
    by (simp add: t d1 d parse_broken)
  show ?thesis
    using k [OF parse_price_text] k [OF parse_fraction_text] k [OF parse_exponent_text]
      k [OF parse_rate_text] b
    by (simp only: simp_thms)
qed

subsection \<open>Generation\<close>

lemma callOpenRouter_failed:
  "callOpenRouter_try outcome = Inl e \<Longrightarrow>
   callOpenRouter outcome = \<lparr>console = [e], result = Inl generation_error\<rparr>"
  by (simp add: callOpenRouter_def)

lemma callOpenRouter_result_Inl:
  "result (callOpenRouter outcome) = Inl err \<Longrightarrow> err = generation_error"
  by (auto simp: callOpenRouter_def split: sum.splits)

lemma forbidden_fails:
  "result (callOpenRouter (Response False (js ''Forbidden'') [])) = Inl generation_error"
  by (simp add: callOpenRouter_def callOpenRouter_try_def)

lemma prose_fails:
  "result (callOpenRouter (Response True (js ''OK'') (chat_body (js ''I cannot do that.'')))) = Inl generation_error"
  by code_simp

lemma price_prompt: "trim (prompt price_editor) \<noteq> []"
  by code_simp

text \<open>
  Claim C2: a generation that fails, by a non-2xx status or by a text that does not parse,
  leaves the Document as it was, calls onChange not at all and emits exactly one error
  notification.
\<close>

theorem failed_generation_isolated:
  assumes "trim (prompt s) \<noteq> []" and "result (callOpenRouter outcome) = Inl err"
  shows "handleAIGenerate outcome s =
           s\<lparr>toasts := toasts s @ [(message generation_error, Failure)], isProcessing := False\<rparr> \<and>
         document (handleAIGenerate outcome s) = document s \<and>
         onChange_calls (handleAIGenerate outcome s) = onChange_calls s \<and>
         toasts (handleAIGenerate outcome s) = toasts s @ [(message err, Failure)]"
  using assms callOpenRouter_result_Inl [OF assms(2)]
  by (simp add: handleAIGenerate_def toast_def)

theorem failed_generation_isolated_witness:
  "document (handleAIGenerate (Response False (js ''Forbidden'') []) price_editor)
     = JObject [(js ''base_price'', JNumber 100)] \<and>
   onChange_calls (handleAIGenerate (Response False (js ''Forbidden'') []) price_editor) = [] \<and>
   toasts (handleAIGenerate (Response False (js ''Forbidden'') []) price_editor)
     = [(js ''AI returned invalid JSON format or failed to generate.'', Failure)] \<and>
   document (handleAIGenerate (Response True (js ''OK'') (chat_body (js ''I cannot do that.''))) price_editor)
     = JObject [(js ''base_price'', JNumber 100)] \<and>
   onChange_calls (handleAIGenerate (Response True (js ''OK'') (chat_body (js ''I cannot do that.''))) price_editor) = [] \<and>
   toasts (handleAIGenerate (Response True (js ''OK'') (chat_body (js ''I cannot do that.''))) price_editor)
     = [(js ''AI returned invalid JSON format or failed to generate.'', Failure)]"
proof -
  have s: "document price_editor = JObject [(js ''base_price'', JNumber 100)]"
    "onChange_calls price_editor = []" "toasts price_editor = []"
    by (simp_all add: price_editor_def initial_editor_def)
  have m: "message generation_error = js ''AI returned invalid JSON format or failed to generate.''"
    by (simp add: generation_error_def)
  show ?thesis
    using failed_generation_isolated [OF price_prompt forbidden_fails]
      failed_generation_isolated [OF price_prompt prose_fails]
    by (simp add: s m)
qed


lemma prose_body:
  "JSON_parse (chat_body (js ''I cannot do that.'')) =
     Inr (JObject [(js ''choices'', JArray [JObject [(js ''message'',
       JObject [(js ''role'', JString (js ''assistant'')),
                (js ''content'', JString (js ''I cannot do that.''))])]])])"
  by code_simp

lemma prose_content:
  "content_of (JObject [(js ''choices'', JArray [JObject [(js ''message'',
       JObject [(js ''role'', JString (js ''assistant'')),
                (js ''content'', JString (js ''I cannot do that.''))])]])])
     = Inr (Some (JString (js ''I cannot do that.'')))"
  by code_simp

lemma prose_text:
  "JSON_parse (normalize (js ''I cannot do that.'')) = Inl (Thrown SyntaxError json_syntax_message)"
  by code_simp

text \<open>
  Claim C1, as stated: a non-2xx status makes the call fail with an error that carries the
  status text and differs from the error of a text that does not parse. It does not hold: the
  catch block replaces every error by the same one, so the status "Forbidden", the status
  "Too Many Requests" and an answer in prose all give the caller the same error.
\<close>

theorem generation_error_collapsed:
  "result (callOpenRouter (Response False (js ''Forbidden'') []))
     = result (callOpenRouter (Response False (js ''Too Many Requests'') [])) \<and>
   result (callOpenRouter (Response False (js ''Forbidden'') []))
     = result (callOpenRouter (Response True (js ''OK'') (chat_body (js ''I cannot do that.'')))) \<and>
   result (callOpenRouter (Response False (js ''Forbidden'') []))
     = Inl (Thrown PlainError (js ''AI returned invalid JSON format or failed to generate.''))"
  by (simp add: forbidden_fails prose_fails generation_error_def)
     (simp add: callOpenRouter_def callOpenRouter_try_def generation_error_def)

text \<open>
  Claim C1, amended: on a non-2xx status the call fails with the fixed error "AI returned
  invalid JSON format or failed to generate."; the status text is written to the console only;
  and a 2xx response whose text does not parse after normalization fails with the very same
  error.
\<close>

theorem callOpenRouter_failure:
  "callOpenRouter (Response False st b) =
     \<lparr>console = [Thrown PlainError (js ''API Error: '' @ st)], result = Inl generation_error\<rparr> \<and>
   (JSON_parse b = Inr d \<and> content_of d = Inr (Some (JString content)) \<and>
    JSON_parse (normalize content) = Inl e \<longrightarrow>
      callOpenRouter (Response True st b) = \<lparr>console = [e], result = Inl generation_error\<rparr>)"
  by (simp add: callOpenRouter_def callOpenRouter_try_def bind_js_def)

theorem callOpenRouter_failure_witness:
  "callOpenRouter (Response False (js ''Forbidden'') []) =
     \<lparr>console = [Thrown PlainError (js ''API Error: Forbidden'')], result = Inl generation_error\<rparr> \<and>
   callOpenRouter (Response True (js ''OK'') (chat_body (js ''I cannot do that.''))) =
     \<lparr>console = [Thrown SyntaxError json_syntax_message], result = Inl generation_error\<rparr>"
proof -
  have a: "js ''API Error: '' @ js ''Forbidden'' = js ''API Error: Forbidden''"
    by (simp add: js_def)
  let ?d = "JObject [(js ''choices'', JArray [JObject [(js ''message'',
       JObject [(js ''role'', JString (js ''assistant'')),
                (js ''content'', JString (js ''I cannot do that.''))])]])]"
  show ?thesis
    using callOpenRouter_failure [where st = "js ''Forbidden''" and b = "[]"]
      callOpenRouter_failure [where st = "js ''OK''"
        and b = "chat_body (js ''I cannot do that.'')"
        and d = ?d
        and content = "js ''I cannot do that.''"
        and e = "Thrown SyntaxError json_syntax_message"]
    by (simp add: a prose_body prose_content prose_text)
qed

lemma plain_answer:
  "result (callOpenRouter (Response True (js ''OK'') (chat_body price_text)))
     = Inr (JObject [(js ''base_price'', JNumber 150)])"
  by code_simp

lemma fenced_answer:
  "result (callOpenRouter (Response True (js ''OK'') (chat_body (fenced_json price_text))))
     = Inr (JObject [(js ''base_price'', JNumber 150)])"
  by code_simp

lemma rate_answer:
  "result (callOpenRouter (Response True (js ''OK'') (chat_body rate_text)))
     = Inr (JObject [(js ''base_price'', JNum (Decimal 995 (- 1)))])"
  by code_simp

lemma exponent_answer:
  "result (callOpenRouter (Response True (js ''OK'') (chat_body (js ''1e3'')))) = Inr (JNumber 1000)"
  by code_simp

text \<open>
  Claim C4: a successful generation replaces the Document by the parsed answer as a whole and
  emits exactly one success notification; with the Document \<open>{"base_price": 100}\<close> and the
  answer \<open>{"base_price": 150}\<close> the Document becomes \<open>{"base_price": 150}\<close>, and the same
  answer between fence markers gives the same Document. The answers \<open>{"base_price": 99.5}\<close>
  and \<open>1e3\<close> are successful generations too.
\<close>

theorem generation_replaces:
  assumes "trim (prompt s) \<noteq> []" and "result (callOpenRouter outcome) = Inr v"
  shows "document (handleAIGenerate outcome s) = v \<and>
         onChange_calls (handleAIGenerate outcome s) = onChange_calls s @ [v] \<and>
         toasts (handleAIGenerate outcome s) = toasts s @ [(js ''Update successful'', Success)]"
  using assms
  by (simp add: handleAIGenerate_def onChange_def toast_def raw_effect_def Let_def)

theorem generation_replaces_witness:
  "document (handleAIGenerate (Response True (js ''OK'') (chat_body price_text)) price_editor)
     = JObject [(js ''base_price'', JNumber 150)] \<and>
   toasts (handleAIGenerate (Response True (js ''OK'') (chat_body price_text)) price_editor)
     = [(js ''Update successful'', Success)] \<and>
   document (handleAIGenerate (Response True (js ''OK'') (chat_body (fenced_json price_text))) price_editor)
     = JObject [(js ''base_price'', JNumber 150)] \<and>
   toasts (handleAIGenerate (Response True (js ''OK'') (chat_body (fenced_json price_text))) price_editor)
     = [(js ''Update successful'', Success)] \<and>
   document (handleAIGenerate (Response True (js ''OK'') (chat_body rate_text)) price_editor)
     = JObject [(js ''base_price'', JNum (Decimal 995 (- 1)))] \<and>
   toasts (handleAIGenerate (Response True (js ''OK'') (chat_body rate_text)) price_editor)
     = [(js ''Update successful'', Success)] \<and>
   document (handleAIGenerate (Response True (js ''OK'') (chat_body (js ''1e3''))) price_editor)
     = JNumber 1000 \<and>
   toasts (handleAIGenerate (Response True (js ''OK'') (chat_body (js ''1e3''))) price_editor)
     = [(js ''Update successful'', Success)]"
proof -
  have s: "toasts price_editor = []" by (simp add: price_editor_def initial_editor_def)
  show ?thesis
    using generation_replaces [OF price_prompt plain_answer]
      generation_replaces [OF price_prompt fenced_answer]
      generation_replaces [OF price_prompt rate_answer]
      generation_replaces [OF price_prompt exponent_answer]
    by (simp add: s)
qed

subsection \<open>Raw text that was never committed\<close>

text \<open>
  Claim C6, as stated: after entering raw mode, typing invalid text, switching to tree mode and
  entering raw mode again, the raw text is the pretty-printed serialization of the Document.
  It does not hold for a falsy Document: with the Document \<open>null\<close> the raw text is
  \<open>{}\<close>, and the serialization of \<open>null\<close> is \<open>null\<close>.
\<close>

theorem falsy_document_raw_text:
  "rawText (setMode Raw (setMode Preview (handleRawBlur (textarea_onChange (js ''{broken'')
      (setMode Raw (initial_editor JNull)))))) = js ''{}'' \<and>
   JSON_stringify_2 (document (initial_editor JNull)) = js ''null''"
  by code_simp

text \<open>
  Claim C6, amended: after entering raw mode, typing invalid text (with or without the blur that
  leaving the text area causes), switching to tree mode and entering raw mode again, the raw
  text is the one shown when raw mode was first entered, the invalid text is gone and the
  Document is what it was. That text is the pretty-printed serialization of the editor's value,
  which is the Document when the Document is truthy, and the empty object (the empty array on
  the itinerary tab) when the Document is \<open>null\<close>, \<open>false\<close>, \<open>0\<close> or the empty string.
\<close>

theorem uncommitted_text_discarded:
  assumes "mode s = Preview" and "JSON_parse invalid = Inl e"
  shows "rawText (setMode Raw (setMode Preview (handleRawBlur (textarea_onChange invalid (setMode Raw s)))))
           = rawText (setMode Raw s) \<and>
         rawText (setMode Raw (setMode Preview (textarea_onChange invalid (setMode Raw s))))
           = rawText (setMode Raw s) \<and>
         rawText (setMode Raw s) = JSON_stringify_2 (value_prop s) \<and>
         (truthy (document s) \<longrightarrow> rawText (setMode Raw s) = JSON_stringify_2 (document s)) \<and>
         document (setMode Raw (setMode Preview (handleRawBlur (textarea_onChange invalid (setMode Raw s)))))
           = document s"
  using assms
  by (simp add: setMode_def raw_effect_def handleRawBlur_def textarea_onChange_def value_prop_def
      or_else_def)

lemma price_serialized: "JSON_stringify_2 (JObject [(js ''base_price'', JNumber 100)]) = js ''{'' @ [0x0A] @ js ''  \"base_price\": 100'' @ [0x0A] @ js ''}''"
  by code_simp

theorem uncommitted_text_discarded_witness:
  "rawText (setMode Raw (setMode Preview (handleRawBlur (textarea_onChange (js ''{broken'')
      (setMode Raw price_editor)))))
     = js ''{'' @ [0x0A] @ js ''  \"base_price\": 100'' @ [0x0A] @ js ''}''"
proof -
  have m: "mode price_editor = Preview" "truthy (document price_editor)"
    "document price_editor = JObject [(js ''base_price'', JNumber 100)]"
    by (simp_all add: price_editor_def initial_editor_def)
  note t = uncommitted_text_discarded [OF m(1) parse_broken]
  have a: "rawText (setMode Raw (setMode Preview (handleRawBlur (textarea_onChange (js ''{broken'')
      (setMode Raw price_editor))))) = rawText (setMode Raw price_editor)"
    using t by (rule conjunct1)
  have b: "rawText (setMode Raw price_editor) = JSON_stringify_2 (document price_editor)"
    using t m(2) by blast
  show ?thesis
    by (simp only: a b m(3) price_serialized)
qed

subsection \<open>Serializing and parsing back\<close>





lemma truthy_value_prop: "truthy (value_prop s)"
  by (simp add: value_prop_def or_else_def)



lemma infinity_not_read_back:
  "JSON_parse (js ''1e400'') = Inr (JNum Infinity) \<and>
   rawText (setMode Raw (initial_editor (JNum Infinity))) = js ''null'' \<and>
   document (handleRawBlur (setMode Raw (initial_editor (JNum Infinity)))) = JNull"
  by code_simp

lemma rate_raw_text:
  "rawText (setMode Raw (initial_editor (JNum (Decimal 995 (- 1))))) = js ''99.5'' \<and>
   rawText (setMode Raw (initial_editor (JNum (Decimal 15 (- 8))))) = js ''1.5e-7''"
  by code_simp


subsection \<open>The markers of the tree view\<close>

lemma marker_texts:
  "js ''Empty list'' \<noteq> js ''Not provided''" "js ''Empty list'' \<noteq> js ''Empty''"
  "js ''Not provided'' \<noteq> js ''Empty''"
  by (simp_all add: js_def)

lemma map_middle_neq:
  "f x \<noteq> f y \<Longrightarrow> map f (before @ x # after) \<noteq> map f (before @ y # after)"
  by simp

lemma place_object_like: "p \<noteq> Here \<Longrightarrow> is_object_like (place p v)"
  by (cases p) (simp_all add: is_object_like_def)

lemma place_not_bool: "is_marker_value v \<Longrightarrow> place p v \<noteq> JBool b"
  by (cases p) (auto simp: is_marker_value_def)

lemma renderNode_place_distinct:
  "is_marker_value a \<Longrightarrow> is_marker_value b \<Longrightarrow> a \<noteq> b \<Longrightarrow>
   renderNode (place p a) d \<noteq> renderNode (place p b) d"
proof (induction p arbitrary: d)
  case Here
  then show ?case using marker_texts by (auto simp: is_marker_value_def)
next
  case (Element before p after)
  let ?f = "\<lambda>item. if is_object_like item then Card (renderNode item (d + 1))
                     else renderNode item (d + 1)"
  have "?f (place p a) \<noteq> ?f (place p b)"
  proof (cases "p = Here")
    case True
    with Element.prems show ?thesis
      using marker_texts by (auto simp: is_marker_value_def is_object_like_def)
  next
    case False
    then show ?thesis using Element by (simp add: place_object_like)
  qed
  then have "map ?f (before @ place p a # after) \<noteq> map ?f (before @ place p b # after)"
    by (rule map_middle_neq)
  then show ?case by simp
next
  case (Member before k p after)
  let ?g = "\<lambda>q. (humanize (fst q),
                   case snd q of JBool b \<Rightarrow> Badge b | _ \<Rightarrow> renderNode (snd q) (d + 1))"
  have nb: "?g (k, place p v) = (humanize k, renderNode (place p v) (d + 1))"
    if "is_marker_value v" for v
    using place_not_bool [OF that, of p] by (cases "place p v") auto
  have "?g (k, place p a) \<noteq> ?g (k, place p b)"
    unfolding nb [OF Member.prems(1)] nb [OF Member.prems(2)]
    using Member by simp
  then have "map ?g (before @ (k, place p a) # after) \<noteq> map ?g (before @ (k, place p b) # after)"
    by (rule map_middle_neq)
  then show ?case by simp
qed

lemma tree_view_below_root:
  assumes "p \<noteq> Here"
  shows "tree_view (s\<lparr>document := place p v\<rparr>) = Panel (renderNode (place p v) 0)"
proof -
  have "truthy (place p v)" "\<not> no_keys (place p v)" "place p v \<noteq> JNull"
    using assms by (cases p; simp add: no_keys_def)+
  then show ?thesis
    by (simp add: tree_view_def value_prop_def or_else_def preview_def HumanReadableDisplay_def)
qed

text \<open>
  Claim C8, as stated: the empty array, null and the empty object are rendered differently at
  every position of the Document. It does not hold at the root: the editor shows the same
  "no data" placeholder for a Document that is the empty array, null or the empty object.
\<close>

theorem root_markers_coincide:
  "tree_view (initial_editor (JArray [])) = NoData \<and>
   tree_view (initial_editor JNull) = NoData \<and>
   tree_view (initial_editor (JObject [])) = NoData"
  by code_simp

text \<open>
  Claim C8, amended: renderNode renders the empty array ("Empty list"), null ("Not provided")
  and the empty object ("Empty") differently at every position and every depth, and so does the
  tree view of the editor at every position below the root of the Document.
\<close>

theorem markers_distinct_below_root:
  "renderNode (place p (JArray [])) d \<noteq> renderNode (place p JNull) d \<and>
   renderNode (place p (JArray [])) d \<noteq> renderNode (place p (JObject [])) d \<and>
   renderNode (place p JNull) d \<noteq> renderNode (place p (JObject [])) d \<and>
   (p \<noteq> Here \<longrightarrow>
      tree_view (s\<lparr>document := place p (JArray [])\<rparr>) \<noteq> tree_view (s\<lparr>document := place p JNull\<rparr>) \<and>
      tree_view (s\<lparr>document := place p (JArray [])\<rparr>) \<noteq> tree_view (s\<lparr>document := place p (JObject [])\<rparr>) \<and>
      tree_view (s\<lparr>document := place p JNull\<rparr>) \<noteq> tree_view (s\<lparr>document := place p (JObject [])\<rparr>))"
  by (simp add: tree_view_below_root renderNode_place_distinct is_marker_value_def)

theorem markers_distinct_below_root_witness:
  "tree_view (initial_editor (JObject [(js ''tags'', JArray [JNumber 1, JArray []])]))
     \<noteq> tree_view (initial_editor (JObject [(js ''tags'', JArray [JNumber 1, JNull])])) \<and>
   tree_view (initial_editor (JObject [(js ''tags'', JArray [JNumber 1, JArray []])]))
     \<noteq> tree_view (initial_editor (JObject [(js ''tags'', JArray [JNumber 1, JObject []])])) \<and>
   tree_view (initial_editor (JObject [(js ''tags'', JArray [JNumber 1, JNull])]))
     \<noteq> tree_view (initial_editor (JObject [(js ''tags'', JArray [JNumber 1, JObject []])]))"
proof -
  let ?p = "Member [] (js ''tags'') (Element [JNumber 1] Here []) []"
  show ?thesis
    using markers_distinct_below_root [of ?p 0 "initial_editor JNull"]
    by (simp add: initial_editor_def)
qed

subsection \<open>Fence stripping\<close>

lemma list3_cases:
  obtains "length s < 3" | a b c r where "s = a # b # c # r"
proof (cases s)
  case Nil
  then show thesis using that(1) by simp
next
  case s1: (Cons a s1)
  show thesis
  proof (cases s1)
    case Nil
    then show thesis using that(1) s1 by simp
  next
    case s2: (Cons b s2)
    show thesis
    proof (cases s2)
      case Nil
      then show thesis using that(1) s1 s2 by simp
    next
      case (Cons c r)
      then show thesis using that(2) s1 s2 by simp
    qed
  qed
qed

lemma take3_append:
  assumes "take 3 (t @ u) = fence" and "case u of [] \<Rightarrow> True | c # _ \<Rightarrow> c \<noteq> 0x60" and "t \<noteq> []"
  shows "take 3 t = fence"
proof (cases t rule: list3_cases)
  case 1
  then have "length t = 1 \<or> length t = 2"
    using assms(3) by (cases t) (auto simp: numeral_2_eq_2 less_Suc_eq)
  then show ?thesis
  proof
    assume "length t = 1"
    then obtain a where "t = [a]" by (cases t) auto
    then show ?thesis using assms(1,2) by (cases u) (auto simp: fence_def)
  next
    assume "length t = 2"
    then obtain a b where "t = [a, b]" by (cases t; cases "tl t") auto
    then show ?thesis using assms(1,2) by (cases u) (auto simp: fence_def)
  qed
next
  case (2 a b c r)
  then show ?thesis using assms(1) by simp
qed

lemma replace_all_skip:
  "m (c # cs) = None \<Longrightarrow> replace_all m rep (c # cs) = c # replace_all m rep cs"
  by simp

lemma replace_all_match:
  "m (c # cs) = Some r \<Longrightarrow> length r < Suc (length cs) \<Longrightarrow>
   replace_all m rep (c # cs) = rep @ replace_all m rep r"
  by simp

lemma replace_all_no_fence:
  assumes "\<And>s r. m s = Some r \<Longrightarrow> take 3 s = fence"
    and "\<not> has_fence t" and "case u of [] \<Rightarrow> True | c # _ \<Rightarrow> c \<noteq> 0x60"
  shows "replace_all m rep (t @ u) = t @ replace_all m rep u"
  using assms(2)
proof (induction t)
  case Nil
  show ?case by simp
next
  case (Cons c cs)
  have "m (c # cs @ u) = None"
  proof (rule ccontr)
    assume "m (c # cs @ u) \<noteq> None"
    then obtain r where "m ((c # cs) @ u) = Some r" by auto
    then have "take 3 ((c # cs) @ u) = fence" by (rule assms(1))
    then have "take 3 (c # cs) = fence" using assms(3) by (rule take3_append) simp
    with Cons.prems show False by simp
  qed
  then have "replace_all m rep (c # cs @ u) = c # replace_all m rep (cs @ u)"
    by (rule replace_all_skip)
  with Cons show ?case by simp
qed

lemma ascii_fold_backtick: "ascii_fold x = 0x60 \<Longrightarrow> x = 0x60"
  unfolding ascii_fold_def is_upper_def
  by (auto split: if_splits; unat_arith)

lemma match_fence_json_fence:
  assumes "match_fence_json s = Some r"
  shows "take 3 s = fence"
proof -
  have m: "map ascii_fold (take 7 s) = fence @ js ''json''"
    using assms by (simp add: match_fence_json_def split: if_splits)
  show ?thesis
  proof (cases s rule: list3_cases)
    case 1
    have "length (map ascii_fold (take 7 s)) = 7"
      unfolding m by (simp add: fence_def js_def)
    with 1 show ?thesis by simp
  next
    case (2 a b c r')
    have "ascii_fold a = 0x60 \<and> ascii_fold b = 0x60 \<and> ascii_fold c = 0x60"
      using m unfolding 2 by (simp add: fence_def)
    then show ?thesis unfolding 2 by (simp add: fence_def ascii_fold_backtick)
  qed
qed

lemma match_fence_opener_fence: "match_fence_opener s = Some r \<Longrightarrow> take 3 s = fence"
  by (simp add: match_fence_opener_def split: if_splits)

lemma match_fence_fence: "match_fence s = Some r \<Longrightarrow> take 3 s = fence"
  by (simp add: match_fence_def split: if_splits)

lemma is_space_newline: "is_space 0x0A"
  by (simp add: is_space_def)

lemma trim_Cons: "is_space c \<Longrightarrow> trim (c # s) = trim s"
  by (simp add: trim_def)

lemma trim_snoc:
  assumes "is_space c"
  shows "trim (s @ [c]) = trim s"
proof (cases "\<forall>x \<in> set s. is_space x")
  case True
  then have a: "dropWhile is_space s = []" by (simp add: dropWhile_eq_Nil_conv)
  have "\<forall>x \<in> set (s @ [c]). is_space x" using True assms by simp
  then have b: "dropWhile is_space (s @ [c]) = []" by (simp only: dropWhile_eq_Nil_conv)
  show ?thesis by (simp only: trim_def a b)
next
  case False
  then obtain x where "x \<in> set s" "\<not> is_space x" by auto
  then have "dropWhile is_space (s @ [c]) = dropWhile is_space s @ [c]"
    by (rule dropWhile_append1)
  with assms show ?thesis by (simp add: trim_def)
qed

lemma tail_json: "replace_all match_fence_json [] (0x0A # fence) = 0x0A # fence"
  by (simp add: match_fence_json_def fence_def js_def ascii_fold_def is_upper_def)

lemma tail_opener: "replace_all match_fence_opener [] (0x0A # fence) = 0x0A # fence"
  by (simp add: match_fence_opener_def fence_def)

lemma tail_fence: "replace_all match_fence [] (0x0A # fence) = [0x0A]"
  by (simp add: match_fence_def fence_def)

lemma newline_not_backtick: "case 0x0A # fence of [] \<Rightarrow> True | c # _ \<Rightarrow> c \<noteq> (0x60 :: cu)"
  by simp

lemma no_fence_newline: "\<not> has_fence t \<Longrightarrow> \<not> has_fence (0x0A # t)"
  by (simp add: fence_def)

lemma inner_json:
  assumes "\<not> has_fence t"
  shows "replace_all match_fence_json [] (t @ 0x0A # fence) = t @ 0x0A # fence"
proof -
  have "replace_all match_fence_json [] (t @ 0x0A # fence)
      = t @ replace_all match_fence_json [] (0x0A # fence)"
    using match_fence_json_fence assms newline_not_backtick by (rule replace_all_no_fence)
  then show ?thesis by (simp only: tail_json)
qed

lemma inner_opener:
  assumes "\<not> has_fence t"
  shows "replace_all match_fence_opener [] (t @ 0x0A # fence) = t @ 0x0A # fence"
proof -
  have "replace_all match_fence_opener [] (t @ 0x0A # fence)
      = t @ replace_all match_fence_opener [] (0x0A # fence)"
    using match_fence_opener_fence assms newline_not_backtick by (rule replace_all_no_fence)
  then show ?thesis by (simp only: tail_opener)
qed

lemma inner_fence:
  assumes "\<not> has_fence t"
  shows "replace_all match_fence [] (t @ 0x0A # fence) = t @ [0x0A]"
proof -
  have "replace_all match_fence [] (t @ 0x0A # fence)
      = t @ replace_all match_fence [] (0x0A # fence)"
    using match_fence_fence assms newline_not_backtick by (rule replace_all_no_fence)
  then show ?thesis by (simp only: tail_fence)
qed

lemma normalize_fenced_json:
  assumes "\<not> has_fence t"
  shows "normalize (fenced_json t) = trim t"
proof -
  let ?rest = "(0x0A # t) @ 0x0A # fence"
  have f: "fenced_json t = 0x60 # 0x60 # 0x60 # 0x6A # 0x73 # 0x6F # 0x6E # ?rest"
    by (simp add: fenced_json_def fence_def js_def)
  have "match_fence_json (fenced_json t) = Some ?rest"
    unfolding f by (simp add: match_fence_json_def fence_def js_def ascii_fold_def is_upper_def)
  then have "replace_all match_fence_json [] (fenced_json t)
      = [] @ replace_all match_fence_json [] ?rest"
    unfolding f by (rule replace_all_match [where m = match_fence_json]) simp
  then have a: "replace_all match_fence_json [] (fenced_json t) = ?rest"
    using inner_json [OF no_fence_newline [OF assms]] by simp
  have b: "replace_all match_fence_opener [] ?rest = ?rest"
    by (rule inner_opener [OF no_fence_newline [OF assms]])
  have c: "replace_all match_fence [] ?rest = (0x0A # t) @ [0x0A]"
    by (rule inner_fence [OF no_fence_newline [OF assms]])
  have "trim ((0x0A # t) @ [0x0A]) = trim t"
    by (simp only: trim_snoc [OF is_space_newline] trim_Cons [OF is_space_newline])
  then show ?thesis by (simp only: normalize_def a b c)
qed

lemma normalize_fenced_plain:
  assumes "\<not> has_fence t"
  shows "normalize (fenced_plain t) = trim t"
proof -
  let ?rest = "t @ 0x0A # fence"
  let ?tail = "(0x0A # t) @ 0x0A # fence"
  have f: "fenced_plain t = 0x60 # 0x60 # 0x60 # ?tail"
    by (simp add: fenced_plain_def fence_def)
  have n0: "match_fence_json (0x60 # 0x60 # 0x60 # ?tail) = None"
    and n1: "match_fence_json (0x60 # 0x60 # ?tail) = None"
    and n2: "match_fence_json (0x60 # ?tail) = None"
    by (simp_all add: match_fence_json_def fence_def js_def ascii_fold_def is_upper_def)
  have a: "replace_all match_fence_json [] (fenced_plain t) = fenced_plain t"
    unfolding f
    by (simp only: replace_all_skip [where m = match_fence_json, OF n0]
        replace_all_skip [where m = match_fence_json, OF n1]
        replace_all_skip [where m = match_fence_json, OF n2]
        inner_json [OF no_fence_newline [OF assms]])
  have "match_fence_opener (0x60 # 0x60 # 0x60 # ?tail) = Some ?rest"
    by (simp add: match_fence_opener_def fence_def is_ascii_letter_def is_upper_def is_lower_def)
  then have "replace_all match_fence_opener [] (0x60 # 0x60 # 0x60 # ?tail)
      = [] @ replace_all match_fence_opener [] ?rest"
    by (rule replace_all_match [where m = match_fence_opener]) simp
  then have b: "replace_all match_fence_opener [] (fenced_plain t) = ?rest"
    unfolding f using inner_opener [OF assms] by simp
  have c: "replace_all match_fence [] ?rest = t @ [0x0A]"
    by (rule inner_fence [OF assms])
  have "trim (t @ [0x0A]) = trim t"
    by (rule trim_snoc [OF is_space_newline])
  then show ?thesis by (simp only: normalize_def a b c)
qed

lemma price_text_no_fence: "\<not> has_fence price_text"
  by code_simp

lemma trim_price_text: "trim price_text = price_text"
  by code_simp

text \<open>
  Claim C3, as stated: for every inner text, the normalized fenced text parses to what the
  inner text parses to; only the leading and the closing fence are removed. It does not hold
  when the inner text has a triple backtick of its own: the replacements are global, so the
  string value of \<open>{"a":"```"}\<close> comes out empty.
\<close>

theorem inner_fence_stripped:
  "JSON_parse (normalize (fenced_json (js ''{\"a\":\"'' @ fence @ js ''\"}'')))
     = Inr (JObject [(js ''a'', JString [])]) \<and>
   JSON_parse (js ''{\"a\":\"'' @ fence @ js ''\"}'')
     = Inr (JObject [(js ''a'', JString fence)])"
  by code_simp

text \<open>
  Claim C3, amended: for every inner text without a triple backtick, normalizing the text
  between either pair of fence markers yields exactly the inner text with its surrounding
  white space trimmed, which therefore parses to what the trimmed inner text parses to.
\<close>

theorem fence_free_text_unwrapped:
  assumes "\<not> has_fence t"
  shows "normalize (fenced_json t) = trim t \<and> normalize (fenced_plain t) = trim t \<and>
         JSON_parse (normalize (fenced_json t)) = JSON_parse (trim t) \<and>
         JSON_parse (normalize (fenced_plain t)) = JSON_parse (trim t)"
  using assms by (simp add: normalize_fenced_json normalize_fenced_plain)

theorem fence_free_text_unwrapped_witness:
  "normalize (fenced_json price_text) = price_text \<and>
   normalize (fenced_plain price_text) = price_text \<and>
   JSON_parse (normalize (fenced_json price_text)) = Inr (JObject [(js ''base_price'', JNumber 150)]) \<and>
   JSON_parse (normalize (fenced_plain price_text)) = Inr (JObject [(js ''base_price'', JNumber 150)])"
  using fence_free_text_unwrapped [OF price_text_no_fence]
  by (simp only: trim_price_text parse_price_text)

end
